theory Spec2Isabelle
  imports Complex_Main
begin

section \<open>Physics core of the gravity simulator (simulation.py)\<close>

text \<open>
  The Python source computes with IEEE double precision numbers (numpy arrays and Python
  floats).  This development reads every such number as a real number, so rounding,
  infinities and NaN are outside the model.  The source never raises on a division by
  zero (numpy yields inf or nan); the real-number model agrees with the source only where
  the divisor is not zero, and the theorems below say where that is needed.
\<close>

subsection \<open>Two-component vectors (rows of an (N,2) numpy array)\<close>

type_synonym vec2 = "real \<times> real"

definition vadd :: "vec2 \<Rightarrow> vec2 \<Rightarrow> vec2" where
  "vadd a b = (fst a + fst b, snd a + snd b)"

definition vsub :: "vec2 \<Rightarrow> vec2 \<Rightarrow> vec2" where
  "vsub a b = (fst a - fst b, snd a - snd b)"

definition vmul :: "vec2 \<Rightarrow> vec2 \<Rightarrow> vec2" where
  \<comment> \<open>numpy's elementwise product\<close>
  "vmul a b = (fst a * fst b, snd a * snd b)"

definition vscale :: "vec2 \<Rightarrow> real \<Rightarrow> vec2" where
  \<comment> \<open>array * scalar\<close>
  "vscale a c = (fst a * c, snd a * c)"

definition scalev :: "real \<Rightarrow> vec2 \<Rightarrow> vec2" where
  \<comment> \<open>scalar * array\<close>
  "scalev c a = (c * fst a, c * snd a)"

definition vdiv :: "vec2 \<Rightarrow> real \<Rightarrow> vec2" where
  \<comment> \<open>array / scalar\<close>
  "vdiv a c = (fst a / c, snd a / c)"

definition vsum :: "vec2 list \<Rightarrow> vec2" where
  \<comment> \<open>np.sum along one axis, the rows being vectors\<close>
  "vsum vs = (sum_list (map fst vs), sum_list (map snd vs))"

definition sum2 :: "vec2 \<Rightarrow> real" where
  \<comment> \<open>np.sum along the last axis (of length 2)\<close>
  "sum2 a = fst a + snd a"

definition linalg_norm :: "vec2 \<Rightarrow> real" where
  \<comment> \<open>np.linalg.norm of a 1-d array of two components\<close>
  "linalg_norm a = sqrt (fst a * fst a + snd a * snd a)"

subsection \<open>Constants and the Body class\<close>

definition G :: real where
  "G = 98 / 10"

definition SOFTENING :: real where
  "SOFTENING = 1 / 1000"

record Body =
  position :: vec2
  velocity :: vec2
  mass :: real
  radius :: real
  color :: string
  body_type :: string

text \<open>
  Bodies are Python objects: lists hold references to them, \<open>velocity_verlet_step\<close>
  assigns to their attributes, and \<open>list.remove\<close> finds one by identity (the class defines
  no \<open>__eq__\<close>).  A store maps references to the objects' current attribute values;
  \<open>nxt\<close> is the first reference not yet handed out.
\<close>

type_synonym ref = nat

record store =
  objs :: "ref \<Rightarrow> Body"
  nxt :: ref

definition new_Body :: "store \<Rightarrow> Body \<Rightarrow> ref \<times> store" where
  \<comment> \<open>the constructor \<open>Body(...)\<close>: a fresh object\<close>
  "new_Body s b = (nxt s, s\<lparr>objs := (objs s)(nxt s := b), nxt := Suc (nxt s)\<rparr>)"

datatype np_error = ValueError

subsection \<open>accel\<close>

text \<open>
  The arrays \<open>r * inv_dist3[:, :, np.newaxis]\<close> of shape (N,N,2) and
  \<open>masses[np.newaxis, :, np.newaxis]\<close> of shape (1,M,1) are multiplied under numpy's
  broadcasting rule: along the second axis the lengths N and M must be equal, or one of
  them is 1 and that operand is repeated; anything else raises ValueError.
\<close>

definition broadcast_len :: "nat \<Rightarrow> nat \<Rightarrow> nat option" where
  "broadcast_len n m =
     (if n = m then Some n else if n = 1 then Some m else if m = 1 then Some n else None)"

definition bidx :: "nat \<Rightarrow> nat \<Rightarrow> nat" where
  \<comment> \<open>the index read in an axis of length \<open>n\<close> for the broadcast index \<open>j\<close>\<close>
  "bidx n j = (if n = 1 then 0 else j)"

definition r_ij :: "vec2 list \<Rightarrow> nat \<Rightarrow> nat \<Rightarrow> vec2" where
  \<comment> \<open>\<open>r = positions[np.newaxis, :, :] - positions[:, np.newaxis, :]\<close>, so r[i, j] = p[j] - p[i]\<close>
  "r_ij positions i j = vsub (positions ! j) (positions ! i)"

definition dist2 :: "vec2 list \<Rightarrow> real \<Rightarrow> nat \<Rightarrow> nat \<Rightarrow> real" where
  \<comment> \<open>\<open>dist2 = np.sum(r * r, axis=2) + eps**2\<close>\<close>
  "dist2 positions eps i j =
     sum2 (vmul (r_ij positions i j) (r_ij positions i j)) + eps ^ 2"

definition inv_dist3 :: "vec2 list \<Rightarrow> real \<Rightarrow> nat \<Rightarrow> nat \<Rightarrow> real" where
  \<comment> \<open>\<open>inv_dist3 = dist2 ** (-1.5)\<close> followed by \<open>np.fill_diagonal(inv_dist3, 0.0)\<close>\<close>
  "inv_dist3 positions eps i j =
     (if i = j then 0 else dist2 positions eps i j powr (- (15 / 10)))"

definition accel_term :: "vec2 list \<Rightarrow> real list \<Rightarrow> real \<Rightarrow> nat \<Rightarrow> nat \<Rightarrow> vec2" where
  \<comment> \<open>entry [i, j] of \<open>r * inv_dist3[:, :, np.newaxis] * masses[np.newaxis, :, np.newaxis]\<close>\<close>
  "accel_term positions masses eps i j =
     (let N = length positions; M = length masses in
      vscale (vscale (r_ij positions i (bidx N j)) (inv_dist3 positions eps i (bidx N j)))
             (masses ! bidx M j))"

definition accel :: "vec2 list \<Rightarrow> real list \<Rightarrow> real \<Rightarrow> real \<Rightarrow> np_error + vec2 list" where
  "accel positions masses G_const eps =
     (let N = length positions in
      if N = 0 then Inr []
      else case broadcast_len N (length masses) of
             None \<Rightarrow> Inl ValueError
           | Some K \<Rightarrow>
               Inr (map (\<lambda>i. scalev G_const
                               (vsum (map (accel_term positions masses eps i) [0..<K])))
                        [0..<N]))"

definition accel_default :: "vec2 list \<Rightarrow> real list \<Rightarrow> np_error + vec2 list" where
  \<comment> \<open>\<open>accel(positions, masses)\<close> with the default arguments \<open>G_const = G\<close>, \<open>eps = SOFTENING\<close>\<close>
  "accel_default positions masses = accel positions masses G SOFTENING"

text \<open>The acceleration the specification writes for body \<open>i\<close> of \<open>N\<close> bodies.\<close>

definition spec_accel :: "vec2 list \<Rightarrow> real list \<Rightarrow> real \<Rightarrow> real \<Rightarrow> nat \<Rightarrow> vec2" where
  "spec_accel p m g e i =
     (g * (\<Sum>j \<in> {0..<length p} - {i}.
             m ! j * (fst (p ! j) - fst (p ! i)) /
             (((fst (p ! j) - fst (p ! i))\<^sup>2 + (snd (p ! j) - snd (p ! i))\<^sup>2 + e\<^sup>2) powr (15 / 10))),
      g * (\<Sum>j \<in> {0..<length p} - {i}.
             m ! j * (snd (p ! j) - snd (p ! i)) /
             (((fst (p ! j) - fst (p ! i))\<^sup>2 + (snd (p ! j) - snd (p ! i))\<^sup>2 + e\<^sup>2) powr (15 / 10))))"

subsection \<open>velocity_verlet_step\<close>

definition half_kick :: "vec2 \<Rightarrow> vec2 \<Rightarrow> real \<Rightarrow> vec2" where
  \<comment> \<open>one row of \<open>velocities + 0.5 * a * dt\<close>\<close>
  "half_kick v a dt = vadd v (vscale (scalev (5 / 10) a) dt)"

definition drift :: "vec2 \<Rightarrow> vec2 \<Rightarrow> real \<Rightarrow> vec2" where
  \<comment> \<open>one row of \<open>positions + velocities_half * dt\<close>\<close>
  "drift p vh dt = vadd p (vscale vh dt)"

definition assign_pos_vel :: "ref \<times> vec2 \<times> vec2 \<Rightarrow> store \<Rightarrow> store" where
  \<comment> \<open>the loop body \<open>b.position = pos; b.velocity = vel\<close>\<close>
  "assign_pos_vel bpv s =
     (case bpv of (b, pos, vel) \<Rightarrow>
        s\<lparr>objs := (objs s)(b := (objs s b)\<lparr>position := pos, velocity := vel\<rparr>)\<rparr>)"

definition velocity_verlet_step :: "store \<Rightarrow> ref list \<Rightarrow> real \<Rightarrow> np_error + store" where
  "velocity_verlet_step s bodies dt =
     (if bodies = [] then Inr s
      else
        let positions = map (\<lambda>b. position (objs s b)) bodies;
            velocities = map (\<lambda>b. velocity (objs s b)) bodies;
            masses = map (\<lambda>b. mass (objs s b)) bodies
        in (case accel_default positions masses of
              Inl e \<Rightarrow> Inl e
            | Inr a \<Rightarrow>
               (let velocities_half = map (\<lambda>(v, a). half_kick v a dt) (zip velocities a);
                    positions_new = map (\<lambda>(p, vh). drift p vh dt) (zip positions velocities_half)
                in (case accel_default positions_new masses of
                      Inl e \<Rightarrow> Inl e
                    | Inr a_new \<Rightarrow>
                       (let velocities_new =
                              map (\<lambda>(vh, a). half_kick vh a dt) (zip velocities_half a_new)
                        in Inr (fold assign_pos_vel
                                  (zip bodies (zip positions_new velocities_new)) s))))))"

subsection \<open>merge_bodies\<close>

definition merged_attributes :: "Body \<Rightarrow> Body \<Rightarrow> Body" where
  \<comment> \<open>the arguments \<open>merge_bodies\<close> computes for the constructor\<close>
  "merged_attributes b1 b2 =
     (let total_mass = mass b1 + mass b2;
          pos = vdiv (vadd (vscale (position b1) (mass b1)) (vscale (position b2) (mass b2)))
                     total_mass;
          vel = vdiv (vadd (vscale (velocity b1) (mass b1)) (vscale (velocity b2) (mass b2)))
                     total_mass;
          radius = ((radius b1) ^ 2 + (radius b2) ^ 2) powr (5 / 10);
          body_type = (if body_type b1 = ''blackhole'' \<or> body_type b2 = ''blackhole''
                       then ''blackhole''
                       else if mass b1 \<ge> mass b2 then body_type b1 else body_type b2);
          color = (if mass b1 \<ge> mass b2 then color b1 else color b2)
      in \<lparr>position = pos, velocity = vel, mass = total_mass, radius = radius,
          color = color, body_type = body_type\<rparr>)"

definition merge_bodies :: "store \<Rightarrow> ref \<Rightarrow> ref \<Rightarrow> ref \<times> store" where
  "merge_bodies s b1 b2 = new_Body s (merged_attributes (objs s b1) (objs s b2))"

subsection \<open>handle_collisions\<close>

record hc_state =
  merged_flags :: "nat set"
  new_bodies :: "ref list"
  flashes :: "(ref \<times> string) list"
  heap :: store

definition overlap :: "store \<Rightarrow> ref \<Rightarrow> ref \<Rightarrow> bool" where
  \<comment> \<open>\<open>dist = np.linalg.norm(bi.position - bj.position)\<close>; \<open>dist < (bi.radius + bj.radius)\<close>\<close>
  "overlap s bi bj =
     (linalg_norm (vsub (position (objs s bi)) (position (objs s bj)))
        < radius (objs s bi) + radius (objs s bj))"

definition collide :: "store \<Rightarrow> ref \<Rightarrow> ref \<Rightarrow> (ref \<times> string) \<times> store" where
  \<comment> \<open>the body of \<open>if dist < ...\<close>: the merged body, the flash colour, the store after it\<close>
  "collide s bi bj =
     (let (merged, s1) =
            (if body_type (objs s bi) = ''blackhole'' \<or> body_type (objs s bj) = ''blackhole''
             then
               let (merged, s1) = merge_bodies s bi bj
               in (merged,
                   s1\<lparr>objs := (objs s1)(merged :=
                        (objs s1 merged)\<lparr>body_type := ''blackhole'', color := ''black''\<rparr>)\<rparr>)
             else merge_bodies s bi bj);
          final_color = (if mass (objs s1 bi) \<ge> mass (objs s1 bj)
                         then color (objs s1 bi) else color (objs s1 bj))
      in ((merged, final_color), s1))"

fun hc_inner :: "ref list \<Rightarrow> nat \<Rightarrow> nat list \<Rightarrow> hc_state \<Rightarrow> bool \<times> hc_state" where
  \<comment> \<open>\<open>for j in range(i + 1, N)\<close>; the result carries \<open>did_merge\<close>\<close>
  "hc_inner bodies i [] st = (False, st)"
| "hc_inner bodies i (j # js) st =
     (if j \<in> merged_flags st then hc_inner bodies i js st
      else
        let bi = bodies ! i; bj = bodies ! j
        in if overlap (heap st) bi bj then
             let ((merged, final_color), s1) = collide (heap st) bi bj
             in (True,
                 st\<lparr>new_bodies := new_bodies st @ [merged],
                    flashes := flashes st @ [(merged, final_color)],
                    merged_flags := merged_flags st \<union> {i, j},
                    heap := s1\<rparr>)
           else hc_inner bodies i js st)"

fun hc_outer :: "ref list \<Rightarrow> nat list \<Rightarrow> hc_state \<Rightarrow> hc_state" where
  \<comment> \<open>\<open>for i in range(N)\<close>\<close>
  "hc_outer bodies [] st = st"
| "hc_outer bodies (i # is) st =
     (if i \<in> merged_flags st then hc_outer bodies is st
      else
        let (did_merge, st1) = hc_inner bodies i [i + 1..<length bodies] st
        in hc_outer bodies is
             (if \<not> did_merge then st1\<lparr>new_bodies := new_bodies st1 @ [bodies ! i]\<rparr>
              else st1))"

definition handle_collisions ::
  "store \<Rightarrow> ref list \<Rightarrow> (ref list \<times> (ref \<times> string) list) \<times> store" where
  "handle_collisions s bodies =
     (let N = length bodies in
      if N \<le> 1 then ((bodies, []), s)
      else
        let st = hc_outer bodies [0..<N]
                   \<lparr>merged_flags = {}, new_bodies = [], flashes = [], heap = s\<rparr>
        in ((new_bodies st, flashes st), heap st))"

text \<open>
  The pass as the specification words it, on the sequence itself: the first body is paired
  with the first later body it overlaps, both leave the sequence and the merged body takes
  the first one's place; a body that overlaps no later one stays as it is.
\<close>

fun first_overlap :: "store \<Rightarrow> ref \<Rightarrow> ref list \<Rightarrow> nat option" where
  "first_overlap s b [] = None"
| "first_overlap s b (c # cs) =
     (if overlap s b c then Some 0 else map_option Suc (first_overlap s b cs))"

function resolve_pass :: "store \<Rightarrow> ref list \<Rightarrow> (ref list \<times> (ref \<times> string) list) \<times> store" where
  "resolve_pass s [] = (([], []), s)"
| "resolve_pass s (b # rest) =
     (case first_overlap s b rest of
        None \<Rightarrow>
          (let ((out, fl), s') = resolve_pass s rest in ((b # out, fl), s'))
      | Some k \<Rightarrow>
          (let ((m, fc), s1) = collide s b (rest ! k);
               ((out, fl), s') = resolve_pass s1 (take k rest @ drop (Suc k) rest)
           in ((m # out, (m, fc) # fl), s')))"
  by pat_completeness auto
termination
  by (relation "measure (\<lambda>(s, bs). length bs)") auto

subsection \<open>trigger_supernova\<close>

text \<open>
  The calls of \<open>np.random\<close> are read from a record of their outcomes, in the order of the
  calls: \<open>randint(6, 12)\<close> once, then for the \<open>k\<close>-th fragment \<open>uniform(0.05, 1.5)\<close>,
  \<open>uniform(-2.0, 2.0, size=2)\<close>, \<open>uniform(-0.5, 0.5, size=2)\<close> and \<open>choice\<close> of a colour, and
  \<open>rand()\<close> once for the remnant.
\<close>

record frag_draw =
  fd_mass :: real
  fd_dv :: vec2
  fd_offset :: vec2
  fd_color :: string

record rng_outcome =
  randint_6_12 :: int
  frag_draws :: "nat \<Rightarrow> frag_draw"
  rand :: real

definition palette :: "string list" where
  "palette = [''orange'', ''red'', ''yellow'', ''white'']"

definition in_half_open :: "real \<Rightarrow> real \<Rightarrow> real \<Rightarrow> bool" where
  "in_half_open lo hi x = (lo \<le> x \<and> x < hi)"

definition rng_in_range :: "rng_outcome \<Rightarrow> bool" where
  \<comment> \<open>what numpy documents of these calls: each outcome lies in the half-open interval asked for\<close>
  "rng_in_range rnd =
     (6 \<le> randint_6_12 rnd \<and> randint_6_12 rnd < 12 \<and>
      in_half_open 0 1 (rand rnd) \<and>
      list_all (\<lambda>k. in_half_open (5 / 100) (15 / 10) (fd_mass (frag_draws rnd k)) \<and>
                    in_half_open (- 2) 2 (fst (fd_dv (frag_draws rnd k))) \<and>
                    in_half_open (- 2) 2 (snd (fd_dv (frag_draws rnd k))) \<and>
                    in_half_open (- (5 / 10)) (5 / 10) (fst (fd_offset (frag_draws rnd k))) \<and>
                    in_half_open (- (5 / 10)) (5 / 10) (snd (fd_offset (frag_draws rnd k))) \<and>
                    fd_color (frag_draws rnd k) \<in> set palette)
               [0..<nat (randint_6_12 rnd)])"

definition MASS_THRESHOLD :: real where
  "MASS_THRESHOLD = 20"

definition list_remove :: "ref list \<Rightarrow> ref \<Rightarrow> np_error + ref list" where
  \<comment> \<open>\<open>list.remove(x)\<close>: drops the first occurrence, raises ValueError when there is none\<close>
  "list_remove xs x = (if x \<in> set xs then Inr (remove1 x xs) else Inl ValueError)"

fun sn_fragments ::
  "rng_outcome \<Rightarrow> vec2 \<Rightarrow> vec2 \<Rightarrow> nat list \<Rightarrow> ref list \<Rightarrow> store \<Rightarrow> ref list \<times> store" where
  \<comment> \<open>\<open>for _ in range(n_frags)\<close>, the list being the iterations still to run\<close>
  "sn_fragments rnd pos vel [] fragments s = (fragments, s)"
| "sn_fragments rnd pos vel (k # ks) fragments s =
     (let m = fd_mass (frag_draws rnd k);
          v = vadd vel (fd_dv (frag_draws rnd k));
          offset = fd_offset (frag_draws rnd k);
          color = fd_color (frag_draws rnd k);
          (frag, s1) = new_Body s
             \<lparr>position = vadd pos offset, velocity = v, mass = m,
              radius = max (2 / 100) ((m powr (5 / 10)) * (3 / 100)),
              color = color, body_type = ''planet''\<rparr>
      in sn_fragments rnd pos vel ks (fragments @ [frag]) s1)"

definition trigger_supernova ::
  "rng_outcome \<Rightarrow> store \<Rightarrow> ref list \<Rightarrow> ref \<Rightarrow> ref list \<times> ref list \<times> store" where
  \<comment> \<open>the result is the returned list, the list \<open>bodies\<close> after the call, and the store\<close>
  "trigger_supernova rnd s bodies star =
     (if mass (objs s star) < MASS_THRESHOLD then ([], bodies, s)
      else
        let bodies1 = (case list_remove bodies star of
                         Inr bs \<Rightarrow> bs
                       | Inl ValueError \<Rightarrow> bodies);
            pos = position (objs s star);
            vel = velocity (objs s star);
            n_frags = randint_6_12 rnd;
            (fragments, s1) = sn_fragments rnd pos vel [0..<nat n_frags] [] s;
            (remnant, s2) =
               (if rand rnd < 75 / 100
                then new_Body s1
                       \<lparr>position = pos, velocity = vel, mass = mass (objs s1 star) * (4 / 10),
                        radius = max (5 / 100) (radius (objs s1 star) * (6 / 10)),
                        color = ''darkgray'', body_type = ''blackhole''\<rparr>
                else new_Body s1
                       \<lparr>position = pos, velocity = vel, mass = mass (objs s1 star) * (2 / 10),
                        radius = max (4 / 100) (radius (objs s1 star) * (5 / 10)),
                        color = ''blue'', body_type = ''star''\<rparr>)
        in (fragments @ [remnant], bodies1, s2))"

subsection \<open>Reading results, and a store to run the functions on\<close>

definition merged_body :: "store \<Rightarrow> ref \<Rightarrow> ref \<Rightarrow> Body" where
  \<comment> \<open>the object \<open>merge_bodies(b1, b2)\<close> returns, as it is when the call returns\<close>
  "merged_body s b1 b2 = objs (snd (merge_bodies s b1 b2)) (fst (merge_bodies s b1 b2))"

definition collided_body :: "store \<Rightarrow> ref \<Rightarrow> ref \<Rightarrow> Body" where
  \<comment> \<open>the object \<open>handle_collisions\<close> appends for a colliding pair, as it is when appended\<close>
  "collided_body s bi bj = objs (snd (collide s bi bj)) (fst (fst (collide s bi bj)))"

definition store_of :: "Body list \<Rightarrow> store" where
  \<comment> \<open>a store holding the listed bodies at the references 0, 1, ...\<close>
  "store_of bs =
     \<lparr>objs = (\<lambda>r. if r < length bs then bs ! r
                   else \<lparr>position = (0, 0), velocity = (0, 0), mass = 1, radius = 1,
                         color = [], body_type = []\<rparr>),
      nxt = length bs\<rparr>"

definition planet_a :: Body where
  "planet_a = \<lparr>position = (0, 0), velocity = (1, 0), mass = 2, radius = 3,
               color = ''cyan'', body_type = ''planet''\<rparr>"

definition hole_b :: Body where
  "hole_b = \<lparr>position = (3, 4), velocity = (0, 2), mass = 1, radius = 4,
              color = ''purple'', body_type = ''blackhole''\<rparr>"

definition star_c :: Body where
  "star_c = \<lparr>position = (100, 0), velocity = (0, 0), mass = 25, radius = 1,
              color = ''yellow'', body_type = ''star''\<rparr>"

definition fragment_attributes :: "rng_outcome \<Rightarrow> vec2 \<Rightarrow> vec2 \<Rightarrow> nat \<Rightarrow> Body" where
  \<comment> \<open>what the \<open>k\<close>-th fragment is constructed with\<close>
  "fragment_attributes rnd pos vel k =
     \<lparr>position = vadd pos (fd_offset (frag_draws rnd k)),
      velocity = vadd vel (fd_dv (frag_draws rnd k)),
      mass = fd_mass (frag_draws rnd k),
      radius = max (2 / 100) ((fd_mass (frag_draws rnd k) powr (5 / 10)) * (3 / 100)),
      color = fd_color (frag_draws rnd k), body_type = ''planet''\<rparr>"

definition remnant_attributes :: "rng_outcome \<Rightarrow> Body \<Rightarrow> Body" where
  \<comment> \<open>what the remnant of the star \<open>t\<close> is constructed with\<close>
  "remnant_attributes rnd t =
     (if rand rnd < 75 / 100
      then \<lparr>position = position t, velocity = velocity t, mass = mass t * (4 / 10),
            radius = max (5 / 100) (radius t * (6 / 10)),
            color = ''darkgray'', body_type = ''blackhole''\<rparr>
      else \<lparr>position = position t, velocity = velocity t, mass = mass t * (2 / 10),
            radius = max (4 / 100) (radius t * (5 / 10)),
            color = ''blue'', body_type = ''star''\<rparr>)"

definition rnd0 :: rng_outcome where
  \<comment> \<open>one outcome of the random calls, to run the explosion on\<close>
  "rnd0 = \<lparr>randint_6_12 = 6,
            frag_draws = (\<lambda>k. \<lparr>fd_mass = 1, fd_dv = (1, - 1), fd_offset = (0, 1 / 4),
                                 fd_color = ''red''\<rparr>),
            rand = 1 / 2\<rparr>"

subsection \<open>Notions used to state and prove the properties of a collision pass\<close>

definition merge_update :: "ref list \<Rightarrow> nat \<Rightarrow> nat \<Rightarrow> hc_state \<Rightarrow> hc_state" where
  \<comment> \<open>the loop state after the bodies of indices \<open>i\<close> and \<open>j\<close> have been merged\<close>
  "merge_update bodies i j st =
     (let ((merged, final_color), s1) = collide (heap st) (bodies ! i) (bodies ! j)
      in st\<lparr>new_bodies := new_bodies st @ [merged],
            flashes := flashes st @ [(merged, final_color)],
            merged_flags := merged_flags st \<union> {i, j},
            heap := s1\<rparr>)"

definition remaining :: "ref list \<Rightarrow> nat set \<Rightarrow> nat \<Rightarrow> ref list" where
  \<comment> \<open>the bodies of index at least \<open>i\<close> that are not flagged, in order\<close>
  "remaining bodies F i = map ((!) bodies) (filter (\<lambda>k. k \<notin> F) [i..<length bodies])"

definition hc_result :: "hc_state \<Rightarrow> (ref list \<times> (ref \<times> string) list) \<times> store" where
  \<comment> \<open>what \<open>handle_collisions\<close> returns from the final loop state\<close>
  "hc_result st = ((new_bodies st, flashes st), heap st)"

definition prepend :: "hc_state \<Rightarrow> (ref list \<times> (ref \<times> string) list) \<times> store
     \<Rightarrow> (ref list \<times> (ref \<times> string) list) \<times> store" where
  \<comment> \<open>a result with the bodies and flashes already collected in \<open>st\<close> put in front\<close>
  "prepend st R = ((new_bodies st @ fst (fst R), flashes st @ snd (fst R)), snd R)"

definition heavier_color :: "Body \<Rightarrow> Body \<Rightarrow> string" where
  \<comment> \<open>the colour of the heavier of two bodies, the first one on equal masses\<close>
  "heavier_color A B = (if mass A \<ge> mass B then color A else color B)"

definition in_order :: "ref list \<Rightarrow> ref \<Rightarrow> ref \<Rightarrow> bool" where
  \<comment> \<open>\<open>a\<close> stands at a lower index than \<open>b\<close>\<close>
  "in_order xs a b = (\<exists>i j. i < j \<and> j < length xs \<and> xs ! i = a \<and> xs ! j = b)"

definition is_merge :: "store \<Rightarrow> ref list \<Rightarrow> store \<Rightarrow> ref \<Rightarrow> ref \<Rightarrow> ref \<Rightarrow> bool" where
  \<comment> \<open>\<open>m\<close> is a new object holding the merge of the overlapping bodies \<open>a\<close>, \<open>b\<close> of the list\<close>
  "is_merge s bs s' m a b =
     (in_order bs a b \<and> overlap s a b \<and> nxt s \<le> m \<and> objs s' m = collided_body s a b)"

section \<open>Properties\<close>

subsection \<open>accel computes the softened pairwise sum\<close>

lemma broadcast_len_same: "broadcast_len n n = Some n"
  by (simp add: broadcast_len_def)

lemma bidx_lt: "j < n \<Longrightarrow> bidx n j = j"
  by (auto simp: bidx_def)

lemma accel_term_diag: "i < length positions \<Longrightarrow> accel_term positions masses eps i i = (0, 0)"
  by (simp add: accel_term_def Let_def inv_dist3_def vscale_def bidx_lt)

lemma accel_term_off:
  assumes "length masses = length positions" "j < length positions" "i \<noteq> j"
  shows "accel_term positions masses eps i j =
     (masses ! j * (fst (positions ! j) - fst (positions ! i)) /
        (((fst (positions ! j) - fst (positions ! i))\<^sup>2 + (snd (positions ! j) - snd (positions ! i))\<^sup>2 + eps\<^sup>2) powr (15 / 10)),
      masses ! j * (snd (positions ! j) - snd (positions ! i)) /
        (((fst (positions ! j) - fst (positions ! i))\<^sup>2 + (snd (positions ! j) - snd (positions ! i))\<^sup>2 + eps\<^sup>2) powr (15 / 10)))"
  using assms
  by (simp add: accel_term_def Let_def inv_dist3_def vscale_def bidx_lt r_ij_def vsub_def
      dist2_def sum2_def vmul_def powr_minus_divide power2_eq_square)

lemma sum_list_upt_remove:
  fixes f :: "nat \<Rightarrow> real"
  assumes "i < n" "f i = 0"
  shows "sum_list (map f [0..<n]) = (\<Sum>j \<in> {0..<n} - {i}. f j)"
proof -
  have "sum_list (map f [0..<n]) = sum f {0..<n}"
    by (simp add: interv_sum_list_conv_sum_set_nat)
  also have "\<dots> = f i + sum f ({0..<n} - {i})"
    using assms(1) by (simp add: sum.remove)
  finally show ?thesis using assms(2) by simp
qed

lemma accel_row:
  assumes len: "length masses = length positions" and i: "i < length positions"
  shows "scalev g (vsum (map (accel_term positions masses eps i) [0..<length positions]))
         = spec_accel positions masses g eps i"
proof -
  let ?t = "accel_term positions masses eps i"
  have fst0: "fst (?t i) = 0" and snd0: "snd (?t i) = 0"
    using i by (simp_all add: accel_term_diag)
  have f: "sum_list (map (\<lambda>j. fst (?t j)) [0..<length positions])
        = (\<Sum>j \<in> {0..<length positions} - {i}. fst (?t j))"
    using i fst0 by (rule sum_list_upt_remove)
  have s: "sum_list (map (\<lambda>j. snd (?t j)) [0..<length positions])
        = (\<Sum>j \<in> {0..<length positions} - {i}. snd (?t j))"
    using i snd0 by (rule sum_list_upt_remove)
  have f': "(\<Sum>j \<in> {0..<length positions} - {i}. fst (?t j)) =
     (\<Sum>j \<in> {0..<length positions} - {i}. masses ! j * (fst (positions ! j) - fst (positions ! i)) /
        (((fst (positions ! j) - fst (positions ! i))\<^sup>2 + (snd (positions ! j) - snd (positions ! i))\<^sup>2 + eps\<^sup>2) powr (15 / 10)))"
    by (rule sum.cong) (auto simp: accel_term_off [OF len])
  have s': "(\<Sum>j \<in> {0..<length positions} - {i}. snd (?t j)) =
     (\<Sum>j \<in> {0..<length positions} - {i}. masses ! j * (snd (positions ! j) - snd (positions ! i)) /
        (((fst (positions ! j) - fst (positions ! i))\<^sup>2 + (snd (positions ! j) - snd (positions ! i))\<^sup>2 + eps\<^sup>2) powr (15 / 10)))"
    by (rule sum.cong) (auto simp: accel_term_off [OF len])
  show ?thesis
    by (simp add: scalev_def vsum_def spec_accel_def o_def f s f' s')
qed

lemma accel_same_len:
  assumes "length masses = length positions"
  shows "accel positions masses g eps =
         Inr (map (spec_accel positions masses g eps) [0..<length positions])"
proof (cases "length positions = 0")
  case True
  then show ?thesis by (simp add: accel_def)
next
  case False
  then show ?thesis
    using assms by (simp add: accel_def Let_def broadcast_len_same accel_row)
qed

lemma spec_accel_single: "length p \<le> 1 \<Longrightarrow> i < length p \<Longrightarrow> spec_accel p m g e i = (0, 0)"
proof -
  assume "length p \<le> 1" "i < length p"
  then have e: "{0..<length p} - {i} = {}" by auto
  show ?thesis unfolding spec_accel_def e by simp
qed

text \<open>
  C1: for positions and masses of the same bodies, \<open>accel\<close> with its default constants returns
  one acceleration per body, the one of index \<open>i\<close> being
  \<open>G * (\<Sum>j\<noteq>i. m j * (p j - p i) / (|p j - p i|\<^sup>2 + \<epsilon>\<^sup>2) powr 1.5)\<close> with \<open>G = 9.8\<close> and \<open>\<epsilon> = 0.001\<close>;
  the summand the code adds for \<open>j = i\<close> is exactly the zero vector; and for no body or one body
  every acceleration returned is zero.
\<close>

theorem accel_formula:
  assumes "length masses = length positions"
  shows "\<exists>a. accel_default positions masses = Inr a \<and> length a = length positions \<and>
           (\<forall>i < length positions.
              a ! i = spec_accel positions masses (98 / 10) (1 / 1000) i \<and>
              accel_term positions masses SOFTENING i i = (0, 0)) \<and>
           (length positions \<le> 1 \<longrightarrow> (\<forall>i < length positions. a ! i = (0, 0)))"
  using assms
  by (simp add: accel_default_def accel_same_len G_def SOFTENING_def accel_term_diag
      spec_accel_single)

theorem accel_formula_witness:
  "length [1, 2 :: real] = length [(0, 0), (3, 4) :: vec2] \<and>
   (\<exists>a. accel_default [(0, 0), (3, 4)] [1, 2] = Inr a \<and> length a = 2 \<and>
        a ! 0 = spec_accel [(0, 0), (3, 4)] [1, 2] (98 / 10) (1 / 1000) 0)"
  using accel_formula [of "[1, 2]" "[(0, 0), (3, 4)]"] by auto

subsection \<open>merge_bodies\<close>

lemma objs_store_of: "objs (store_of bs) r = (if r < length bs then bs ! r
                   else \<lparr>position = (0, 0), velocity = (0, 0), mass = 1, radius = 1,
                         color = [], body_type = []\<rparr>)"
  by (simp add: store_of_def)

lemma nxt_store_of: "nxt (store_of bs) = length bs"
  by (simp add: store_of_def)

lemma merged_body_attributes:
  "merged_body s b1 b2 = merged_attributes (objs s b1) (objs s b2)"
  by (simp add: merged_body_def merge_bodies_def new_Body_def)

lemma powr_half_sum_squares: "((x::real)\<^sup>2 + y\<^sup>2) powr (1 / 2) = sqrt (x\<^sup>2 + y\<^sup>2)"
  by (simp add: powr_half_sqrt)

lemma collided_body_attributes:
  "collided_body s bi bj =
     (if body_type (objs s bi) = ''blackhole'' \<or> body_type (objs s bj) = ''blackhole''
      then (merged_attributes (objs s bi) (objs s bj))\<lparr>body_type := ''blackhole'', color := ''black''\<rparr>
      else merged_attributes (objs s bi) (objs s bj))"
  by (simp add: collided_body_def collide_def merge_bodies_def new_Body_def Let_def split: prod.splits)

text \<open>
  C3: for two bodies of positive mass, the merged body has the sum of the masses, the
  mass-weighted averages of the positions and of the velocities (so its momentum is the sum of
  the two momenta, and its mass times its position is the sum of the two mass-position
  products), and the radius \<open>sqrt (r1\<^sup>2 + r2\<^sup>2)\<close>.
\<close>

theorem merge_bodies_conserves:
  assumes "0 < mass (objs s a)" and "0 < mass (objs s b)"
  shows "mass (merged_body s a b) = mass (objs s a) + mass (objs s b)
    \<and> position (merged_body s a b) =
        ((fst (position (objs s a)) * mass (objs s a) + fst (position (objs s b)) * mass (objs s b))
           / (mass (objs s a) + mass (objs s b)),
         (snd (position (objs s a)) * mass (objs s a) + snd (position (objs s b)) * mass (objs s b))
           / (mass (objs s a) + mass (objs s b)))
    \<and> velocity (merged_body s a b) =
        ((fst (velocity (objs s a)) * mass (objs s a) + fst (velocity (objs s b)) * mass (objs s b))
           / (mass (objs s a) + mass (objs s b)),
         (snd (velocity (objs s a)) * mass (objs s a) + snd (velocity (objs s b)) * mass (objs s b))
           / (mass (objs s a) + mass (objs s b)))
    \<and> mass (merged_body s a b) * fst (velocity (merged_body s a b)) =
        mass (objs s a) * fst (velocity (objs s a)) + mass (objs s b) * fst (velocity (objs s b))
    \<and> mass (merged_body s a b) * snd (velocity (merged_body s a b)) =
        mass (objs s a) * snd (velocity (objs s a)) + mass (objs s b) * snd (velocity (objs s b))
    \<and> mass (merged_body s a b) * fst (position (merged_body s a b)) =
        mass (objs s a) * fst (position (objs s a)) + mass (objs s b) * fst (position (objs s b))
    \<and> mass (merged_body s a b) * snd (position (merged_body s a b)) =
        mass (objs s a) * snd (position (objs s a)) + mass (objs s b) * snd (position (objs s b))
    \<and> radius (merged_body s a b) = sqrt ((radius (objs s a))\<^sup>2 + (radius (objs s b))\<^sup>2)"
proof -
  have nz: "mass (objs s a) + mass (objs s b) \<noteq> 0"
    using assms by simp
  show ?thesis
    using nz
    by (simp add: merged_body_attributes merged_attributes_def Let_def vdiv_def vadd_def
        vscale_def powr_half_sum_squares mult.commute)
qed


theorem merge_bodies_conserves_witness:
  "0 < mass (objs (store_of [planet_a, hole_b]) 0) \<and>
   0 < mass (objs (store_of [planet_a, hole_b]) 1) \<and>
   mass (merged_body (store_of [planet_a, hole_b]) 0 1) = 3 \<and>
   position (merged_body (store_of [planet_a, hole_b]) 0 1) = (1, 4 / 3) \<and>
   velocity (merged_body (store_of [planet_a, hole_b]) 0 1) = (2 / 3, 2 / 3) \<and>
   radius (merged_body (store_of [planet_a, hole_b]) 0 1) = 5"
proof -
  have "sqrt (3\<^sup>2 + 4\<^sup>2) = (5::real)"
    by (rule real_sqrt_unique) simp_all
  then show ?thesis
    using merge_bodies_conserves [of "store_of [planet_a, hole_b]" 0 1]
    by (simp add: objs_store_of planet_a_def hole_b_def)
qed

text \<open>
  C5: when at least one of the two bodies has type blackhole, the merged body has type
  blackhole, whatever the masses: from \<open>merge_bodies\<close> itself, and as \<open>handle_collisions\<close>
  appends it.  The run merges a planet of mass 2 with a black hole of mass 1.
\<close>

theorem merge_blackhole_dominates:
  assumes "body_type (objs s a) = ''blackhole'' \<or> body_type (objs s b) = ''blackhole''"
  shows "body_type (merged_body s a b) = ''blackhole'' \<and>
         body_type (collided_body s a b) = ''blackhole''"
  using assms
  by (auto simp add: merged_body_attributes collided_body_attributes merged_attributes_def Let_def)

theorem merge_blackhole_dominates_witness:
  "(body_type (objs (store_of [planet_a, hole_b]) 0) = ''blackhole'' \<or>
    body_type (objs (store_of [planet_a, hole_b]) 1) = ''blackhole'') \<and>
   mass (objs (store_of [planet_a, hole_b]) 0) > mass (objs (store_of [planet_a, hole_b]) 1) \<and>
   body_type (objs (store_of [planet_a, hole_b]) 0) = ''planet'' \<and>
   body_type (merged_body (store_of [planet_a, hole_b]) 0 1) = ''blackhole'' \<and>
   body_type (collided_body (store_of [planet_a, hole_b]) 0 1) = ''blackhole''"
  using merge_blackhole_dominates [of "store_of [planet_a, hole_b]" 0 1]
  by (simp add: objs_store_of planet_a_def hole_b_def)

text \<open>
  C9: merging (A, B) and merging (B, A) give the same mass, position, velocity and radius
  (total mass not zero, where the real-number division is the source's).  Type and colour
  are the same in both orders when the masses differ; with equal masses the colour is the
  first-listed body's, and so is the type when neither body is a black hole.
\<close>

theorem merge_bodies_commutes:
  assumes "mass (objs s a) + mass (objs s b) \<noteq> 0"
  shows "mass (merged_body s a b) = mass (merged_body s b a)
       \<and> position (merged_body s a b) = position (merged_body s b a)
       \<and> velocity (merged_body s a b) = velocity (merged_body s b a)
       \<and> radius (merged_body s a b) = radius (merged_body s b a)
       \<and> (mass (objs s a) \<noteq> mass (objs s b) \<longrightarrow>
            body_type (merged_body s a b) = body_type (merged_body s b a) \<and>
            color (merged_body s a b) = color (merged_body s b a))
       \<and> (mass (objs s a) = mass (objs s b) \<longrightarrow>
            color (merged_body s a b) = color (objs s a) \<and>
            color (merged_body s b a) = color (objs s b) \<and>
            (body_type (objs s a) \<noteq> ''blackhole'' \<and> body_type (objs s b) \<noteq> ''blackhole'' \<longrightarrow>
               body_type (merged_body s a b) = body_type (objs s a) \<and>
               body_type (merged_body s b a) = body_type (objs s b)))"
  by (auto simp add: merged_body_attributes merged_attributes_def Let_def vdiv_def vadd_def
      vscale_def add.commute)

theorem merge_bodies_commutes_witness:
  "mass (objs (store_of [planet_a, hole_b]) 0) + mass (objs (store_of [planet_a, hole_b]) 1) \<noteq> 0 \<and>
   mass (objs (store_of [planet_a, hole_b]) 0) \<noteq> mass (objs (store_of [planet_a, hole_b]) 1) \<and>
   position (merged_body (store_of [planet_a, hole_b]) 0 1) =
     position (merged_body (store_of [planet_a, hole_b]) 1 0) \<and>
   color (merged_body (store_of [planet_a, hole_b]) 0 1) =
     color (merged_body (store_of [planet_a, hole_b]) 1 0)"
  using merge_bodies_commutes [of "store_of [planet_a, hole_b]" 0 1]
  by (simp add: objs_store_of planet_a_def hole_b_def)

subsection \<open>velocity_verlet_step\<close>

lemma assign_pos_vel_simps:
  "nxt (assign_pos_vel (b, p, v) s) = nxt s"
  "objs (assign_pos_vel (b, p, v) s) r =
     (if r = b then (objs s b)\<lparr>position := p, velocity := v\<rparr> else objs s r)"
  by (simp_all add: assign_pos_vel_def)

lemma fold_assign_nxt: "nxt (fold assign_pos_vel zs s) = nxt s"
  by (induction zs arbitrary: s) (auto simp: assign_pos_vel_simps)

lemma fold_assign_other:
  "r \<notin> fst ` set zs \<Longrightarrow> objs (fold assign_pos_vel zs s) r = objs s r"
  by (induction zs arbitrary: s) (auto simp: assign_pos_vel_simps)

lemma fold_assign_fields:
  "mass (objs (fold assign_pos_vel zs s) r) = mass (objs s r) \<and>
   radius (objs (fold assign_pos_vel zs s) r) = radius (objs s r) \<and>
   color (objs (fold assign_pos_vel zs s) r) = color (objs s r) \<and>
   body_type (objs (fold assign_pos_vel zs s) r) = body_type (objs s r)"
  by (induction zs arbitrary: s) (auto simp: assign_pos_vel_simps)


lemma fold_assign_hit:
  assumes "\<forall>z \<in> set zs. \<forall>z' \<in> set zs. fst z = fst z' \<longrightarrow> snd z = snd z'"
    and "(b, p, v) \<in> set zs"
  shows "objs (fold assign_pos_vel zs s) b = (objs s b)\<lparr>position := p, velocity := v\<rparr>"
  using assms
proof (induction zs arbitrary: s)
  case Nil
  from Nil.prems(2) show ?case by simp
next
  case (Cons z zs)
  obtain b' p' v' where z: "z = (b', p', v')" by (cases z) auto
  have cons: "\<forall>z \<in> set zs. \<forall>z' \<in> set zs. fst z = fst z' \<longrightarrow> snd z = snd z'"
  proof (intro ballI impI)
    fix y y' assume y: "y \<in> set zs" "y' \<in> set zs" and e: "fst y = fst y'"
    have "y \<in> set (z # zs)" "y' \<in> set (z # zs)" using y by simp_all
    with Cons.prems(1) e show "snd y = snd y'" by blast
  qed
  have step: "fold assign_pos_vel (z # zs) s = fold assign_pos_vel zs (assign_pos_vel (b', p', v') s)"
    by (simp add: z)
  show ?case
  proof (cases "\<exists>q. (b, q) \<in> set zs")
    case True
    then obtain q where q: "(b, q) \<in> set zs" ..
    have m1: "(b, q) \<in> set (z # zs)" using q by simp
    have m2: "(b, p, v) \<in> set (z # zs)" by (rule Cons.prems(2))
    from Cons.prems(1) m1 have "\<forall>z' \<in> set (z # zs). fst (b, q) = fst z' \<longrightarrow> snd (b, q) = snd z'"
      by (rule bspec)
    from this m2 have "fst (b, q) = fst (b, p, v) \<longrightarrow> snd (b, q) = snd (b, p, v)"
      by (rule bspec)
    then have "q = (p, v)" by simp
    then have "(b, p, v) \<in> set zs" using q by simp
    from Cons.IH [OF cons this, of "assign_pos_vel (b', p', v') s"]
    have "objs (fold assign_pos_vel zs (assign_pos_vel (b', p', v') s)) b =
          (objs (assign_pos_vel (b', p', v') s) b)\<lparr>position := p, velocity := v\<rparr>" .
    also have "\<dots> = (objs s b)\<lparr>position := p, velocity := v\<rparr>"
      by (simp add: assign_pos_vel_simps)
    finally show ?thesis by (simp only: step)
  next
    case False
    then have nin: "(b, p, v) \<notin> set zs" by blast
    then have zeq: "(b', p', v') = (b, p, v)" using Cons.prems(2) z by simp
    have "b \<notin> fst ` set zs"
    proof
      assume "b \<in> fst ` set zs"
      then obtain y where "y \<in> set zs" "b = fst y" by (rule imageE)
      then have "(b, snd y) \<in> set zs" by simp
      with False show False by blast
    qed
    then have "objs (fold assign_pos_vel zs (assign_pos_vel (b', p', v') s)) b =
          objs (assign_pos_vel (b', p', v') s) b" by (rule fold_assign_other)
    also have "\<dots> = (objs s b)\<lparr>position := p, velocity := v\<rparr>"
      using zeq by (simp add: assign_pos_vel_simps)
    finally show ?thesis by (simp only: step)
  qed
qed


lemma accel_default_eq:
  assumes "length masses = length positions"
  shows "accel_default positions masses =
         Inr (map (spec_accel positions masses G SOFTENING) [0..<length positions])"
  using assms by (simp add: accel_default_def accel_same_len)

lemma spec_accel_full:
  assumes "i < length p"
  shows "spec_accel p m g e i =
     (g * (\<Sum>j \<in> {0..<length p}.
             m ! j * (fst (p ! j) - fst (p ! i)) /
             (((fst (p ! j) - fst (p ! i))\<^sup>2 + (snd (p ! j) - snd (p ! i))\<^sup>2 + e\<^sup>2) powr (15 / 10))),
      g * (\<Sum>j \<in> {0..<length p}.
             m ! j * (snd (p ! j) - snd (p ! i)) /
             (((fst (p ! j) - fst (p ! i))\<^sup>2 + (snd (p ! j) - snd (p ! i))\<^sup>2 + e\<^sup>2) powr (15 / 10))))"
proof -
  have fin: "finite {0..<length p}" and mem: "i \<in> {0..<length p}"
    using assms by auto
  have r: "sum f ({0..<length p} - {i}) = sum f {0..<length p}" if "f i = 0" for f :: "nat \<Rightarrow> real"
    by (subst sum.remove [OF fin mem]) (simp add: that)
  show ?thesis
    unfolding spec_accel_def
  proof -
    have z1: "m ! i * (fst (p ! i) - fst (p ! i)) /
             (((fst (p ! i) - fst (p ! i))\<^sup>2 + (snd (p ! i) - snd (p ! i))\<^sup>2 + e\<^sup>2) powr (15 / 10)) = 0"
      by simp
    have z2: "m ! i * (snd (p ! i) - snd (p ! i)) /
             (((fst (p ! i) - fst (p ! i))\<^sup>2 + (snd (p ! i) - snd (p ! i))\<^sup>2 + e\<^sup>2) powr (15 / 10)) = 0"
      by simp
    show "(g * (\<Sum>j \<in> {0..<length p} - {i}.
             m ! j * (fst (p ! j) - fst (p ! i)) /
             (((fst (p ! j) - fst (p ! i))\<^sup>2 + (snd (p ! j) - snd (p ! i))\<^sup>2 + e\<^sup>2) powr (15 / 10))),
      g * (\<Sum>j \<in> {0..<length p} - {i}.
             m ! j * (snd (p ! j) - snd (p ! i)) /
             (((fst (p ! j) - fst (p ! i))\<^sup>2 + (snd (p ! j) - snd (p ! i))\<^sup>2 + e\<^sup>2) powr (15 / 10)))) =
     (g * (\<Sum>j \<in> {0..<length p}.
             m ! j * (fst (p ! j) - fst (p ! i)) /
             (((fst (p ! j) - fst (p ! i))\<^sup>2 + (snd (p ! j) - snd (p ! i))\<^sup>2 + e\<^sup>2) powr (15 / 10))),
      g * (\<Sum>j \<in> {0..<length p}.
             m ! j * (snd (p ! j) - snd (p ! i)) /
             (((fst (p ! j) - fst (p ! i))\<^sup>2 + (snd (p ! j) - snd (p ! i))\<^sup>2 + e\<^sup>2) powr (15 / 10))))"
      by (simp only: r [of "\<lambda>j. m ! j * (fst (p ! j) - fst (p ! i)) /
             (((fst (p ! j) - fst (p ! i))\<^sup>2 + (snd (p ! j) - snd (p ! i))\<^sup>2 + e\<^sup>2) powr (15 / 10))", OF z1]
          r [of "\<lambda>j. m ! j * (snd (p ! j) - snd (p ! i)) /
             (((fst (p ! j) - fst (p ! i))\<^sup>2 + (snd (p ! j) - snd (p ! i))\<^sup>2 + e\<^sup>2) powr (15 / 10))", OF z2])
  qed
qed

lemma spec_accel_same_position:
  assumes "i < length p" "j < length p" "p ! i = p ! j"
  shows "spec_accel p m g e i = spec_accel p m g e j"
  unfolding spec_accel_full [OF assms(1)] spec_accel_full [OF assms(2)] assms(3)
  by (rule refl)


lemma map_zip_nth:
  assumes "length xs = length ys"
  shows "map (\<lambda>(x, y). f x y) (zip xs ys) = map (\<lambda>i. f (xs ! i) (ys ! i)) [0..<length xs]"
  by (rule nth_equalityI) (simp_all add: assms)


lemma half_kick_components:
  "half_kick v a dt = (fst v + 5 / 10 * fst a * dt, snd v + 5 / 10 * snd a * dt)"
  by (simp add: half_kick_def vadd_def vscale_def scalev_def)

lemma drift_components:
  "drift p vh dt = (fst p + fst vh * dt, snd p + snd vh * dt)"
  by (simp add: drift_def vadd_def vscale_def)

lemma velocity_verlet_step_unfold:
  fixes s bodies dt
  defines "n \<equiv> length bodies"
  defines "p \<equiv> map (\<lambda>b. position (objs s b)) bodies"
    and "v \<equiv> map (\<lambda>b. velocity (objs s b)) bodies"
    and "m \<equiv> map (\<lambda>b. mass (objs s b)) bodies"
  defines "a \<equiv> map (spec_accel p m G SOFTENING) [0..<n]"
  defines "vh \<equiv> map (\<lambda>i. half_kick (v ! i) (a ! i) dt) [0..<n]"
  defines "p' \<equiv> map (\<lambda>i. drift (p ! i) (vh ! i) dt) [0..<n]"
  defines "a' \<equiv> map (spec_accel p' m G SOFTENING) [0..<n]"
  defines "v' \<equiv> map (\<lambda>i. half_kick (vh ! i) (a' ! i) dt) [0..<n]"
  assumes ne: "bodies \<noteq> []"
  shows "velocity_verlet_step s bodies dt = Inr (fold assign_pos_vel (zip bodies (zip p' v')) s)"
proof -
  have lp: "length p = n" and lv: "length v = n" and lm: "length m = n"
    by (simp_all add: p_def v_def m_def n_def)
  have la: "length a = n" by (simp add: a_def)
  have lvh: "length vh = n" by (simp add: vh_def)
  have lp': "length p' = n" by (simp add: p'_def)
  have la': "length a' = n" by (simp add: a'_def)
  have acc1: "accel_default p m = Inr a"
    using accel_default_eq [of m p] by (simp add: lp lm a_def)
  have acc2: "accel_default p' m = Inr a'"
    using accel_default_eq [of m p'] by (simp add: lp' lm a'_def)
  have e1: "map (\<lambda>(v, a). half_kick v a dt) (zip v a) = vh"
    using map_zip_nth [of v a "\<lambda>v a. half_kick v a dt"] by (simp add: lv la vh_def)
  have e2: "map (\<lambda>(p, vh). drift p vh dt) (zip p vh) = p'"
    using map_zip_nth [of p vh "\<lambda>p vh. drift p vh dt"] by (simp add: lp lvh p'_def)
  have e3: "map (\<lambda>(vh, a). half_kick vh a dt) (zip vh a') = v'"
    using map_zip_nth [of vh a' "\<lambda>vh a. half_kick vh a dt"] by (simp add: lvh la' v'_def)
  show ?thesis
    unfolding velocity_verlet_step_def Let_def
    using ne
    by (simp add: p_def [symmetric] v_def [symmetric] m_def [symmetric] acc1 e1 e2 acc2 e3)
qed


lemma velocity_verlet_step_aliases:
  fixes s bodies dt
  defines "n \<equiv> length bodies"
  defines "p \<equiv> map (\<lambda>b. position (objs s b)) bodies"
    and "v \<equiv> map (\<lambda>b. velocity (objs s b)) bodies"
    and "m \<equiv> map (\<lambda>b. mass (objs s b)) bodies"
  defines "a \<equiv> map (spec_accel p m G SOFTENING) [0..<n]"
  defines "vh \<equiv> map (\<lambda>i. half_kick (v ! i) (a ! i) dt) [0..<n]"
  defines "p' \<equiv> map (\<lambda>i. drift (p ! i) (vh ! i) dt) [0..<n]"
  defines "a' \<equiv> map (spec_accel p' m G SOFTENING) [0..<n]"
  defines "v' \<equiv> map (\<lambda>i. half_kick (vh ! i) (a' ! i) dt) [0..<n]"
  assumes i: "i < n" and j: "j < n" and same: "bodies ! i = bodies ! j"
  shows "p' ! i = p' ! j \<and> v' ! i = v' ! j"
proof -
  have lp: "length p = n" by (simp add: p_def n_def)
  have lp': "length p' = n" by (simp add: p'_def)
  have pe: "p ! i = p ! j" and ve: "v ! i = v ! j"
    using i j same by (simp_all add: p_def v_def n_def)
  have ae: "a ! i = a ! j"
    using i j spec_accel_same_position [of i p j m G SOFTENING] pe by (simp add: a_def lp)
  have vhe: "vh ! i = vh ! j"
    using i j by (simp add: vh_def ve ae)
  have p'e: "p' ! i = p' ! j"
    using i j by (simp add: p'_def pe vhe)
  have a'e: "a' ! i = a' ! j"
    using i j spec_accel_same_position [of i p' j m G SOFTENING] p'e by (simp add: a'_def lp')
  have "v' ! i = v' ! j"
    using i j by (simp add: v'_def vhe a'e)
  with p'e show ?thesis by simp
qed


text \<open>
  C2: one step computes, from the positions \<open>p\<close>, velocities \<open>v\<close> and masses \<open>m\<close> read off the
  bodies before anything is assigned, the five stages \<open>a = accel p m\<close>,
  \<open>vh = v + 0.5 * a * dt\<close>, \<open>p' = p + vh * dt\<close>, \<open>a' = accel p' m\<close>, \<open>v' = vh + 0.5 * a' * dt\<close>,
  and leaves body \<open>i\<close> with position \<open>p' ! i\<close> and velocity \<open>v' ! i\<close>; nothing else of any object
  changes, and for the empty list the store is returned as it was.
\<close>

theorem velocity_verlet_step_stages:
  fixes s bodies dt
  defines "n \<equiv> length bodies"
  defines "p \<equiv> map (\<lambda>b. position (objs s b)) bodies"
    and "v \<equiv> map (\<lambda>b. velocity (objs s b)) bodies"
    and "m \<equiv> map (\<lambda>b. mass (objs s b)) bodies"
  shows "\<exists>a vh p' a' v' s'.
      accel_default p m = Inr a \<and> length a = n
    \<and> length vh = n
    \<and> (\<forall>i<n. vh ! i = (fst (v ! i) + 1 / 2 * fst (a ! i) * dt,
                         snd (v ! i) + 1 / 2 * snd (a ! i) * dt))
    \<and> length p' = n
    \<and> (\<forall>i<n. p' ! i = (fst (p ! i) + fst (vh ! i) * dt, snd (p ! i) + snd (vh ! i) * dt))
    \<and> accel_default p' m = Inr a' \<and> length a' = n
    \<and> length v' = n
    \<and> (\<forall>i<n. v' ! i = (fst (vh ! i) + 1 / 2 * fst (a' ! i) * dt,
                         snd (vh ! i) + 1 / 2 * snd (a' ! i) * dt))
    \<and> velocity_verlet_step s bodies dt = Inr s'
    \<and> (\<forall>i<n. position (objs s' (bodies ! i)) = p' ! i \<and>
               velocity (objs s' (bodies ! i)) = v' ! i)
    \<and> (\<forall>r. mass (objs s' r) = mass (objs s r) \<and> radius (objs s' r) = radius (objs s r) \<and>
            color (objs s' r) = color (objs s r) \<and> body_type (objs s' r) = body_type (objs s r))
    \<and> (\<forall>r. r \<notin> set bodies \<longrightarrow> objs s' r = objs s r)
    \<and> nxt s' = nxt s
    \<and> (bodies = [] \<longrightarrow> s' = s)"
proof (cases "bodies = []")
  case True
  have "accel_default [] [] = Inr []"
    by (simp add: accel_default_def accel_def)
  moreover have "velocity_verlet_step s [] dt = Inr s"
    by (simp add: velocity_verlet_step_def)
  ultimately show ?thesis
    using True by (simp add: n_def p_def v_def m_def)
next
  case ne: False
  define a where "a = map (spec_accel p m G SOFTENING) [0..<n]"
  define vh where "vh = map (\<lambda>i. half_kick (v ! i) (a ! i) dt) [0..<n]"
  define p' where "p' = map (\<lambda>i. drift (p ! i) (vh ! i) dt) [0..<n]"
  define a' where "a' = map (spec_accel p' m G SOFTENING) [0..<n]"
  define v' where "v' = map (\<lambda>i. half_kick (vh ! i) (a' ! i) dt) [0..<n]"
  define zs where "zs = zip bodies (zip p' v')"
  define s' where "s' = fold assign_pos_vel zs s"
  have lp: "length p = n" and lm: "length m = n"
    by (simp_all add: p_def m_def n_def)
  have la: "length a = n" by (simp add: a_def)
  have lvh: "length vh = n" by (simp add: vh_def)
  have lp': "length p' = n" by (simp add: p'_def)
  have la': "length a' = n" by (simp add: a'_def)
  have lv': "length v' = n" by (simp add: v'_def)
  have lzs: "length zs = n" by (simp add: zs_def lp' lv' n_def)
  have acc1: "accel_default p m = Inr a"
    using accel_default_eq [of m p] by (simp add: lp lm a_def)
  have acc2: "accel_default p' m = Inr a'"
    using accel_default_eq [of m p'] by (simp add: lp' lm a'_def)
  have vh_i: "\<forall>i<n. vh ! i = (fst (v ! i) + 1 / 2 * fst (a ! i) * dt,
                         snd (v ! i) + 1 / 2 * snd (a ! i) * dt)"
    by (simp add: vh_def half_kick_components)
  have p'_i: "\<forall>i<n. p' ! i = (fst (p ! i) + fst (vh ! i) * dt, snd (p ! i) + snd (vh ! i) * dt)"
    by (simp add: p'_def drift_components)
  have v'_i: "\<forall>i<n. v' ! i = (fst (vh ! i) + 1 / 2 * fst (a' ! i) * dt,
                         snd (vh ! i) + 1 / 2 * snd (a' ! i) * dt)"
    by (simp add: v'_def half_kick_components)
  have run: "velocity_verlet_step s bodies dt = Inr s'"
    unfolding s'_def zs_def v'_def a'_def p'_def vh_def a_def p_def v_def m_def n_def
    by (rule velocity_verlet_step_unfold [OF ne])
  have same_ref: "p' ! i = p' ! j \<and> v' ! i = v' ! j"
    if "i < n" "j < n" "bodies ! i = bodies ! j" for i j
    using that
    unfolding v'_def a'_def p'_def vh_def a_def p_def v_def m_def n_def
    by (rule velocity_verlet_step_aliases)
  have zs_nth: "zs ! i = (bodies ! i, p' ! i, v' ! i)" if "i < n" for i
    using that by (simp add: zs_def lp' lv' n_def)
  have consistent: "\<forall>z \<in> set zs. \<forall>z' \<in> set zs. fst z = fst z' \<longrightarrow> snd z = snd z'"
  proof (intro ballI impI)
    fix z z' assume z: "z \<in> set zs" and z': "z' \<in> set zs" and e: "fst z = fst z'"
    from z obtain i where i: "i < n" "z = zs ! i"
      by (auto simp: in_set_conv_nth lzs)
    from z' obtain j where j: "j < n" "z' = zs ! j"
      by (auto simp: in_set_conv_nth lzs)
    have "bodies ! i = bodies ! j"
      using e i j by (simp add: zs_nth)
    with i(1) j(1) have "p' ! i = p' ! j \<and> v' ! i = v' ! j"
      by (rule same_ref)
    then show "snd z = snd z'"
      using i j by (simp add: zs_nth)
  qed
  have hit: "position (objs s' (bodies ! i)) = p' ! i \<and> velocity (objs s' (bodies ! i)) = v' ! i"
    if "i < n" for i
  proof -
    have "zs ! i \<in> set zs"
      using that lzs by simp
    then have "(bodies ! i, p' ! i, v' ! i) \<in> set zs"
      by (simp only: zs_nth [OF that])
    from fold_assign_hit [OF consistent this, of s]
    show ?thesis by (simp add: s'_def)
  qed
  have fields: "\<forall>r. mass (objs s' r) = mass (objs s r) \<and> radius (objs s' r) = radius (objs s r) \<and>
            color (objs s' r) = color (objs s r) \<and> body_type (objs s' r) = body_type (objs s r)"
    unfolding s'_def by (intro allI) (rule fold_assign_fields)
  have others: "\<forall>r. r \<notin> set bodies \<longrightarrow> objs s' r = objs s r"
  proof (intro allI impI)
    fix r assume "r \<notin> set bodies"
    then have "r \<notin> fst ` set zs"
      by (auto simp: zs_def dest: set_zip_leftD)
    then show "objs s' r = objs s r"
      unfolding s'_def by (rule fold_assign_other)
  qed
  have nx: "nxt s' = nxt s"
    unfolding s'_def by (rule fold_assign_nxt)
  from hit have hit': "\<forall>i<n. position (objs s' (bodies ! i)) = p' ! i \<and>
               velocity (objs s' (bodies ! i)) = v' ! i" by blast
  show ?thesis
    apply (rule exI [of _ a], rule exI [of _ vh], rule exI [of _ p'], rule exI [of _ a'],
        rule exI [of _ v'], rule exI [of _ s'])
    apply (intro conjI)
    apply (rule acc1 la lvh vh_i lp' p'_i acc2 la' lv' v'_i run hit' fields others nx)+
    using ne apply simp
    done
qed


lemma accel_default_one: "accel_default [q] [w] = Inr [(0, 0)]"
  by (simp add: accel_default_eq spec_accel_single)

theorem velocity_verlet_step_stages_witness:
  "\<exists>s'. velocity_verlet_step (store_of [planet_a]) [0] 2 = Inr s' \<and>
        position (objs s' 0) = (2, 0) \<and> velocity (objs s' 0) = (1, 0) \<and>
        mass (objs s' 0) = 2 \<and> body_type (objs s' 0) = ''planet''"
proof -
  from velocity_verlet_step_stages [of "store_of [planet_a]" "[0]" 2]
  obtain a vh p' a' v' s' where
    a: "accel_default [position (objs (store_of [planet_a]) 0)] [mass (objs (store_of [planet_a]) 0)] = Inr a"
    and vh: "vh ! 0 = (fst (velocity (objs (store_of [planet_a]) 0)) + 1 / 2 * fst (a ! 0) * 2,
                       snd (velocity (objs (store_of [planet_a]) 0)) + 1 / 2 * snd (a ! 0) * 2)"
    and p': "p' ! 0 = (fst (position (objs (store_of [planet_a]) 0)) + fst (vh ! 0) * 2,
                       snd (position (objs (store_of [planet_a]) 0)) + snd (vh ! 0) * 2)"
    and lp': "length p' = 1"
    and a': "accel_default p' [mass (objs (store_of [planet_a]) 0)] = Inr a'"
    and v': "v' ! 0 = (fst (vh ! 0) + 1 / 2 * fst (a' ! 0) * 2, snd (vh ! 0) + 1 / 2 * snd (a' ! 0) * 2)"
    and run: "velocity_verlet_step (store_of [planet_a]) [0] 2 = Inr s'"
    and pos: "position (objs s' 0) = p' ! 0" "velocity (objs s' 0) = v' ! 0"
    and fields: "mass (objs s' 0) = mass (objs (store_of [planet_a]) 0)"
                "body_type (objs s' 0) = body_type (objs (store_of [planet_a]) 0)"
    by auto
  have a0: "a = [(0, 0)]" using a by (simp add: accel_default_one)
  obtain q where q: "p' = [q]" using lp' by (cases p') auto
  have a'0: "a' = [(0, 0)]" using a' by (simp add: q accel_default_one)
  show ?thesis
    using run pos fields vh p' v'
    by (simp add: a0 a'0 objs_store_of planet_a_def)
qed

subsection \<open>trigger_supernova\<close>

lemma new_Body_simps:
  "fst (new_Body s b) = nxt s"
  "nxt (snd (new_Body s b)) = Suc (nxt s)"
  "objs (snd (new_Body s b)) r = (if r = nxt s then b else objs s r)"
  by (simp_all add: new_Body_def)

lemma sn_fragments_step:
  "sn_fragments rnd pos vel (k # ks) fragments s =
     sn_fragments rnd pos vel ks (fragments @ [nxt s])
       (snd (new_Body s (fragment_attributes rnd pos vel k)))"
  by (simp add: Let_def fragment_attributes_def new_Body_def)

lemma sn_fragments_result:
  "fst (sn_fragments rnd pos vel ks fragments s) = fragments @ map (\<lambda>i. nxt s + i) [0..<length ks]
   \<and> nxt (snd (sn_fragments rnd pos vel ks fragments s)) = nxt s + length ks
   \<and> (\<forall>r < nxt s. objs (snd (sn_fragments rnd pos vel ks fragments s)) r = objs s r)
   \<and> (\<forall>i < length ks. objs (snd (sn_fragments rnd pos vel ks fragments s)) (nxt s + i)
          = fragment_attributes rnd pos vel (ks ! i))"
proof (induction ks arbitrary: fragments s)
  case Nil
  then show ?case by simp
next
  case (Cons k ks)
  let ?s1 = "snd (new_Body s (fragment_attributes rnd pos vel k))"
  note IH = Cons.IH [of "fragments @ [nxt s]" ?s1]
  have n1: "nxt ?s1 = Suc (nxt s)" by (simp add: new_Body_simps)
  have m: "map (\<lambda>i. nxt s + i) [0..<length (k # ks)] = nxt s # map (\<lambda>i. Suc (nxt s) + i) [0..<length ks]"
    by (simp add: upt_conv_Cons map_Suc_upt [symmetric] del: upt_Suc)
  have c1: "fst (sn_fragments rnd pos vel (k # ks) fragments s) =
        fragments @ map (\<lambda>i. nxt s + i) [0..<length (k # ks)]"
    using IH by (simp only: sn_fragments_step n1 m) simp
  have c2: "nxt (snd (sn_fragments rnd pos vel (k # ks) fragments s)) = nxt s + length (k # ks)"
    using IH by (simp only: sn_fragments_step n1) simp
  have c3: "\<forall>r < nxt s. objs (snd (sn_fragments rnd pos vel (k # ks) fragments s)) r = objs s r"
  proof (intro allI impI)
    fix r assume r: "r < nxt s"
    then have "r < nxt ?s1" by (simp add: n1)
    with IH have "objs (snd (sn_fragments rnd pos vel ks (fragments @ [nxt s]) ?s1)) r = objs ?s1 r"
      by blast
    then show "objs (snd (sn_fragments rnd pos vel (k # ks) fragments s)) r = objs s r"
      using r by (simp only: sn_fragments_step) (simp add: new_Body_simps)
  qed
  have c4: "\<forall>i < length (k # ks). objs (snd (sn_fragments rnd pos vel (k # ks) fragments s)) (nxt s + i)
          = fragment_attributes rnd pos vel ((k # ks) ! i)"
  proof (intro allI impI)
    fix i assume i: "i < length (k # ks)"
    show "objs (snd (sn_fragments rnd pos vel (k # ks) fragments s)) (nxt s + i)
          = fragment_attributes rnd pos vel ((k # ks) ! i)"
    proof (cases i)
      case 0
      have "nxt s < nxt ?s1" by (simp add: n1)
      with IH have "objs (snd (sn_fragments rnd pos vel ks (fragments @ [nxt s]) ?s1)) (nxt s) = objs ?s1 (nxt s)"
        by blast
      then show ?thesis
        using 0 by (simp only: sn_fragments_step) (simp add: new_Body_simps)
    next
      case (Suc j)
      then have "j < length ks" using i by simp
      with IH have "objs (snd (sn_fragments rnd pos vel ks (fragments @ [nxt s]) ?s1)) (nxt ?s1 + j)
          = fragment_attributes rnd pos vel (ks ! j)"
        by blast
      then show ?thesis
        using Suc by (simp only: sn_fragments_step n1) simp
    qed
  qed
  from c1 c2 c3 c4 show ?case by blast
qed


lemma bodies_after_remove:
  "(case list_remove bodies star of Inr bs \<Rightarrow> bs | Inl ValueError \<Rightarrow> bodies) = remove1 star bodies"
  by (simp add: list_remove_def remove1_idem)

lemma trigger_supernova_below:
  "mass (objs s star) < MASS_THRESHOLD \<Longrightarrow> trigger_supernova rnd s bodies star = ([], bodies, s)"
  by (simp add: trigger_supernova_def)

lemma trigger_supernova_explodes:
  fixes rnd s bodies star
  defines "n \<equiv> nat (randint_6_12 rnd)"
  defines "s1 \<equiv> snd (sn_fragments rnd (position (objs s star)) (velocity (objs s star)) [0..<n] [] s)"
  assumes "\<not> mass (objs s star) < MASS_THRESHOLD" and "star < nxt s"
  shows "trigger_supernova rnd s bodies star =
           (map (\<lambda>i. nxt s + i) [0..<n] @ [nxt s + n], remove1 star bodies,
            snd (new_Body s1 (remnant_attributes rnd (objs s star))))"
proof -
  note fr = sn_fragments_result [of rnd "position (objs s star)" "velocity (objs s star)" "[0..<n]" "[]" s]
  have f1: "fst (sn_fragments rnd (position (objs s star)) (velocity (objs s star)) [0..<n] [] s)
            = map (\<lambda>i. nxt s + i) [0..<n]"
    using fr by simp
  have n1: "nxt s1 = nxt s + n"
    using fr by (simp add: s1_def)
  have st: "objs s1 star = objs s star"
    using fr assms(4) by (simp add: s1_def)
  have split: "sn_fragments rnd (position (objs s star)) (velocity (objs s star)) [0..<n] [] s
            = (map (\<lambda>i. nxt s + i) [0..<n], s1)"
    using f1 by (simp add: s1_def prod_eq_iff)
  have rem: "(if rand rnd < 75 / 100
        then new_Body s1
               \<lparr>position = position (objs s star), velocity = velocity (objs s star),
                mass = mass (objs s1 star) * (4 / 10),
                radius = max (5 / 100) (radius (objs s1 star) * (6 / 10)),
                color = ''darkgray'', body_type = ''blackhole''\<rparr>
        else new_Body s1
               \<lparr>position = position (objs s star), velocity = velocity (objs s star),
                mass = mass (objs s1 star) * (2 / 10),
                radius = max (4 / 100) (radius (objs s1 star) * (5 / 10)),
                color = ''blue'', body_type = ''star''\<rparr>)
        = (nxt s + n, snd (new_Body s1 (remnant_attributes rnd (objs s star))))"
    by (simp add: remnant_attributes_def st new_Body_def n1)
  show ?thesis
    unfolding trigger_supernova_def Let_def bodies_after_remove n_def [symmetric]
    using assms(3) by (simp only: split rem if_False prod.case)
qed


lemma trigger_supernova_bodies:
  "fst (snd (trigger_supernova rnd s bodies star)) =
     (if mass (objs s star) < MASS_THRESHOLD then bodies else remove1 star bodies)"
  by (simp add: trigger_supernova_def Let_def bodies_after_remove split: prod.splits)

lemma trigger_supernova_length:
  "\<not> mass (objs s star) < MASS_THRESHOLD \<Longrightarrow>
   length (fst (trigger_supernova rnd s bodies star)) = nat (randint_6_12 rnd) + 1"
proof -
  assume a: "\<not> mass (objs s star) < MASS_THRESHOLD"
  note fr = sn_fragments_result [of rnd "position (objs s star)" "velocity (objs s star)"
      "[0..<nat (randint_6_12 rnd)]" "[]" s]
  then have "length (fst (sn_fragments rnd (position (objs s star)) (velocity (objs s star))
      [0..<nat (randint_6_12 rnd)] [] s)) = nat (randint_6_12 rnd)"
    by simp
  then show ?thesis
    using a by (auto simp add: trigger_supernova_def Let_def split: prod.splits)
qed

text \<open>
  C7: for a target of mass below 20 the call returns the empty list and leaves the list of
  bodies and the store as they were.  For a target of mass at least 20 that is not in the
  list, \<open>list.remove\<close> raises ValueError, which is caught: the list stays as it is and the call
  returns its fragments and remnant as usual.  After one such call on a list without
  repetitions a second call, whatever it draws, leaves the list as the first one left it.
\<close>

theorem trigger_supernova_noop:
  "(mass (objs s target) < 20 \<longrightarrow> trigger_supernova rnd s bodies target = ([], bodies, s))
   \<and> (\<not> mass (objs s target) < 20 \<and> target \<notin> set bodies \<longrightarrow>
        list_remove bodies target = Inl ValueError \<and>
        fst (snd (trigger_supernova rnd s bodies target)) = bodies \<and>
        length (fst (trigger_supernova rnd s bodies target)) = nat (randint_6_12 rnd) + 1)
   \<and> (\<not> mass (objs s target) < 20 \<and> distinct bodies \<longrightarrow>
        fst (snd (trigger_supernova rnd2 s2 (fst (snd (trigger_supernova rnd s bodies target))) target))
          = fst (snd (trigger_supernova rnd s bodies target)))"
  by (auto simp add: trigger_supernova_below trigger_supernova_bodies trigger_supernova_length
      MASS_THRESHOLD_def list_remove_def remove1_idem)

theorem trigger_supernova_noop_witness:
  "mass (objs (store_of [planet_a]) 0) < 20 \<and>
   trigger_supernova rnd0 (store_of [planet_a]) [0] 0 = ([], [0], store_of [planet_a]) \<and>
   \<not> mass (objs (store_of [star_c, planet_a]) 0) < 20 \<and> 0 \<notin> set [1 :: nat] \<and> distinct [1 :: nat] \<and>
   fst (snd (trigger_supernova rnd0 (store_of [star_c, planet_a]) [1] 0)) = [1] \<and>
   length (fst (trigger_supernova rnd0 (store_of [star_c, planet_a]) [1] 0)) = 7"
  using trigger_supernova_noop [of "store_of [planet_a]" 0 rnd0 "[0]"]
    trigger_supernova_noop [of "store_of [star_c, planet_a]" 0 rnd0 "[1]"]
  by (simp add: objs_store_of planet_a_def star_c_def rnd0_def)

lemma rng_in_range_frag:
  assumes "rng_in_range rnd" and "k < nat (randint_6_12 rnd)"
  shows "in_half_open (5 / 100) (15 / 10) (fd_mass (frag_draws rnd k)) \<and>
         in_half_open (- 2) 2 (fst (fd_dv (frag_draws rnd k))) \<and>
         in_half_open (- 2) 2 (snd (fd_dv (frag_draws rnd k))) \<and>
         in_half_open (- (5 / 10)) (5 / 10) (fst (fd_offset (frag_draws rnd k))) \<and>
         in_half_open (- (5 / 10)) (5 / 10) (snd (fd_offset (frag_draws rnd k))) \<and>
         fd_color (frag_draws rnd k) \<in> set palette"
proof -
  have "k \<in> set [0..<nat (randint_6_12 rnd)]" using assms(2) by simp
  with assms(1) show ?thesis
    unfolding rng_in_range_def list_all_iff by blast
qed

lemma rng_in_range_count:
  assumes "rng_in_range rnd"
  shows "6 \<le> nat (randint_6_12 rnd) \<and> nat (randint_6_12 rnd) < 12 \<and>
         int (nat (randint_6_12 rnd)) = randint_6_12 rnd \<and> in_half_open 0 1 (rand rnd)"
  using assms unfolding rng_in_range_def by auto

lemma fragment_radius:
  "0 \<le> fd_mass (frag_draws rnd k) \<Longrightarrow>
   radius (fragment_attributes rnd pos vel k) =
     max (2 / 100) (sqrt (mass (fragment_attributes rnd pos vel k)) * (3 / 100))"
  by (simp add: fragment_attributes_def powr_half_sqrt)

lemma rng_in_range_rnd0: "rng_in_range rnd0"
  by (simp add: rng_in_range_def rnd0_def in_half_open_def palette_def list_all_iff)

text \<open>
  C8: for a target of mass at least 20 that exists before the call, and random outcomes in
  the ranges asked of numpy, the call removes the target from the list (its first
  occurrence; all of it when the list has no repetitions) and returns \<open>n\<close> fragments followed by
  one remnant, \<open>n\<close> being the outcome of \<open>randint(6, 12)\<close>, so \<open>6 \<le> n < 12\<close>.  Each fragment has
  mass in [0.05, 1.5), velocity and position differing from the target's by components in
  [-2, 2) and [-0.5, 0.5), radius \<open>max 0.02 (sqrt mass * 0.03)\<close> and type planet.  The remnant
  has the target's position and velocity; when the outcome of \<open>rand()\<close>, which lies in [0, 1),
  is below 0.75 it is a black hole of mass \<open>0.4 * M\<close> and radius \<open>max 0.05 (0.6 * R)\<close>, otherwise
  a star of mass \<open>0.2 * M\<close> and radius \<open>max 0.04 (0.5 * R)\<close>.  The returned bodies are new,
  distinct objects and no earlier object changes.
\<close>

theorem trigger_supernova_explosion:
  assumes rng: "rng_in_range rnd" and big: "20 \<le> mass (objs s target)" and old: "target < nxt s"
  shows "\<exists>out bodies' s' n.
      trigger_supernova rnd s bodies target = (out, bodies', s')
    \<and> bodies' = remove1 target bodies \<and> (distinct bodies \<longrightarrow> target \<notin> set bodies')
    \<and> int n = randint_6_12 rnd \<and> 6 \<le> n \<and> n < 12 \<and> length out = n + 1
    \<and> (\<forall>k<n. in_half_open (5 / 100) (15 / 10) (mass (objs s' (out ! k)))
          \<and> in_half_open (- 2) 2
               (fst (velocity (objs s' (out ! k))) - fst (velocity (objs s target)))
          \<and> in_half_open (- 2) 2
               (snd (velocity (objs s' (out ! k))) - snd (velocity (objs s target)))
          \<and> in_half_open (- (1 / 2)) (1 / 2)
               (fst (position (objs s' (out ! k))) - fst (position (objs s target)))
          \<and> in_half_open (- (1 / 2)) (1 / 2)
               (snd (position (objs s' (out ! k))) - snd (position (objs s target)))
          \<and> radius (objs s' (out ! k)) =
               max (2 / 100) (sqrt (mass (objs s' (out ! k))) * (3 / 100))
          \<and> body_type (objs s' (out ! k)) = ''planet''
          \<and> color (objs s' (out ! k)) \<in> set palette)
    \<and> position (objs s' (out ! n)) = position (objs s target)
    \<and> velocity (objs s' (out ! n)) = velocity (objs s target)
    \<and> (if rand rnd < 75 / 100
        then body_type (objs s' (out ! n)) = ''blackhole''
           \<and> mass (objs s' (out ! n)) = 4 / 10 * mass (objs s target)
           \<and> radius (objs s' (out ! n)) = max (5 / 100) (6 / 10 * radius (objs s target))
        else body_type (objs s' (out ! n)) = ''star''
           \<and> mass (objs s' (out ! n)) = 2 / 10 * mass (objs s target)
           \<and> radius (objs s' (out ! n)) = max (4 / 100) (5 / 10 * radius (objs s target)))
    \<and> in_half_open 0 1 (rand rnd)
    \<and> distinct out \<and> (\<forall>r \<in> set out. nxt s \<le> r)
    \<and> (\<forall>r<nxt s. objs s' r = objs s r)"
proof -
  define n where "n = nat (randint_6_12 rnd)"
  define pos where "pos = position (objs s target)"
  define vel where "vel = velocity (objs s target)"
  define s1 where "s1 = snd (sn_fragments rnd pos vel [0..<n] [] s)"
  define s' where "s' = snd (new_Body s1 (remnant_attributes rnd (objs s target)))"
  define out where "out = map (\<lambda>i. nxt s + i) [0..<n] @ [nxt s + n]"
  have nb: "\<not> mass (objs s target) < MASS_THRESHOLD"
    using big by (simp add: MASS_THRESHOLD_def)
  have run: "trigger_supernova rnd s bodies target = (out, remove1 target bodies, s')"
    unfolding out_def s'_def s1_def pos_def vel_def n_def
    using nb old by (rule trigger_supernova_explodes)
  note fr = sn_fragments_result [of rnd pos vel "[0..<n]" "[]" s, folded s1_def]
  have n1: "nxt s1 = nxt s + n" using fr by simp
  have below1: "objs s1 r = objs s r" if "r < nxt s" for r using fr that by simp
  have frag1: "objs s1 (nxt s + k) = fragment_attributes rnd pos vel k" if "k < n" for k
    using fr that by simp
  have s'_obj: "objs s' r = (if r = nxt s + n then remnant_attributes rnd (objs s target) else objs s1 r)" for r
    by (simp add: s'_def new_Body_simps n1)
  have cnt: "6 \<le> n \<and> n < 12 \<and> int n = randint_6_12 rnd \<and> in_half_open 0 1 (rand rnd)"
    unfolding n_def using rng by (rule rng_in_range_count)
  have out_k: "out ! k = nxt s + k" if "k < n" for k
    using that by (simp add: out_def nth_append)
  have out_n: "out ! n = nxt s + n"
    by (simp add: out_def nth_append)
  have lout: "length out = n + 1" by (simp add: out_def)
  have frag: "objs s' (out ! k) = fragment_attributes rnd pos vel k" if "k < n" for k
    using that by (simp add: out_k s'_obj frag1)
  have remn: "objs s' (out ! n) = remnant_attributes rnd (objs s target)"
    by (simp add: out_n s'_obj)
  have frags: "\<forall>k<n. in_half_open (5 / 100) (15 / 10) (mass (objs s' (out ! k)))
          \<and> in_half_open (- 2) 2
               (fst (velocity (objs s' (out ! k))) - fst (velocity (objs s target)))
          \<and> in_half_open (- 2) 2
               (snd (velocity (objs s' (out ! k))) - snd (velocity (objs s target)))
          \<and> in_half_open (- (1 / 2)) (1 / 2)
               (fst (position (objs s' (out ! k))) - fst (position (objs s target)))
          \<and> in_half_open (- (1 / 2)) (1 / 2)
               (snd (position (objs s' (out ! k))) - snd (position (objs s target)))
          \<and> radius (objs s' (out ! k)) =
               max (2 / 100) (sqrt (mass (objs s' (out ! k))) * (3 / 100))
          \<and> body_type (objs s' (out ! k)) = ''planet''
          \<and> color (objs s' (out ! k)) \<in> set palette"
  proof (intro allI impI)
    fix k assume k: "k < n"
    note d = rng_in_range_frag [OF rng k [unfolded n_def]]
    have m0: "0 \<le> fd_mass (frag_draws rnd k)"
      using d by (simp add: in_half_open_def)
    have rad: "radius (fragment_attributes rnd pos vel k) =
        max (2 / 100) (sqrt (mass (fragment_attributes rnd pos vel k)) * (3 / 100))"
      using m0 by (rule fragment_radius)
    have rest: "mass (fragment_attributes rnd pos vel k) = fd_mass (frag_draws rnd k)"
      "fst (velocity (fragment_attributes rnd pos vel k)) - fst vel = fst (fd_dv (frag_draws rnd k))"
      "snd (velocity (fragment_attributes rnd pos vel k)) - snd vel = snd (fd_dv (frag_draws rnd k))"
      "fst (position (fragment_attributes rnd pos vel k)) - fst pos = fst (fd_offset (frag_draws rnd k))"
      "snd (position (fragment_attributes rnd pos vel k)) - snd pos = snd (fd_offset (frag_draws rnd k))"
      "body_type (fragment_attributes rnd pos vel k) = ''planet''"
      "color (fragment_attributes rnd pos vel k) = fd_color (frag_draws rnd k)"
      by (simp_all add: fragment_attributes_def vadd_def)
    show "in_half_open (5 / 100) (15 / 10) (mass (objs s' (out ! k)))
          \<and> in_half_open (- 2) 2
               (fst (velocity (objs s' (out ! k))) - fst (velocity (objs s target)))
          \<and> in_half_open (- 2) 2
               (snd (velocity (objs s' (out ! k))) - snd (velocity (objs s target)))
          \<and> in_half_open (- (1 / 2)) (1 / 2)
               (fst (position (objs s' (out ! k))) - fst (position (objs s target)))
          \<and> in_half_open (- (1 / 2)) (1 / 2)
               (snd (position (objs s' (out ! k))) - snd (position (objs s target)))
          \<and> radius (objs s' (out ! k)) =
               max (2 / 100) (sqrt (mass (objs s' (out ! k))) * (3 / 100))
          \<and> body_type (objs s' (out ! k)) = ''planet''
          \<and> color (objs s' (out ! k)) \<in> set palette"
      unfolding frag [OF k] pos_def [symmetric] vel_def [symmetric] rest
      using d rad by (simp add: rest)
  qed
  have rem: "position (objs s' (out ! n)) = position (objs s target)
    \<and> velocity (objs s' (out ! n)) = velocity (objs s target)
    \<and> (if rand rnd < 75 / 100
        then body_type (objs s' (out ! n)) = ''blackhole''
           \<and> mass (objs s' (out ! n)) = 4 / 10 * mass (objs s target)
           \<and> radius (objs s' (out ! n)) = max (5 / 100) (6 / 10 * radius (objs s target))
        else body_type (objs s' (out ! n)) = ''star''
           \<and> mass (objs s' (out ! n)) = 2 / 10 * mass (objs s target)
           \<and> radius (objs s' (out ! n)) = max (4 / 100) (5 / 10 * radius (objs s target)))"
    unfolding remn by (simp add: remnant_attributes_def mult.commute)
  have dist: "distinct out"
    by (auto simp: out_def distinct_map inj_on_def)
  have fresh: "\<forall>r \<in> set out. nxt s \<le> r"
    by (auto simp: out_def)
  have below: "\<forall>r<nxt s. objs s' r = objs s r"
    by (simp add: s'_obj below1)
  have gone: "distinct bodies \<longrightarrow> target \<notin> set (remove1 target bodies)"
    by simp
  show ?thesis
    apply (rule exI [of _ out], rule exI [of _ "remove1 target bodies"], rule exI [of _ s'],
        rule exI [of _ n])
    using run gone cnt lout frags rem dist fresh below
    apply (intro conjI)
    apply blast+
    done
qed


theorem trigger_supernova_explosion_witness:
  "rng_in_range rnd0 \<and> 20 \<le> mass (objs (store_of [star_c]) 0) \<and> 0 < nxt (store_of [star_c]) \<and>
   (\<exists>out bodies' s'. trigger_supernova rnd0 (store_of [star_c]) [0] 0 = (out, bodies', s') \<and>
       bodies' = [] \<and> length out = 7 \<and>
       body_type (objs s' (out ! 0)) = ''planet'' \<and>
       body_type (objs s' (out ! 6)) = ''blackhole'' \<and> mass (objs s' (out ! 6)) = 10 \<and>
       position (objs s' (out ! 6)) = (100, 0))"
proof -
  have h1: "20 \<le> mass (objs (store_of [star_c]) 0)"
    by (simp add: objs_store_of star_c_def)
  have h2: "0 < nxt (store_of [star_c])"
    by (simp add: nxt_store_of)
  from trigger_supernova_explosion [OF rng_in_range_rnd0 h1 h2, of "[0]"]
  obtain out bodies' s' n where
    run: "trigger_supernova rnd0 (store_of [star_c]) [0] 0 = (out, bodies', s')"
    and b: "bodies' = remove1 0 [0]"
    and n: "int n = randint_6_12 rnd0" and l: "length out = n + 1"
    and fr: "\<forall>k<n. body_type (objs s' (out ! k)) = ''planet''"
    and p: "position (objs s' (out ! n)) = position (objs (store_of [star_c]) 0)"
    and r: "if rand rnd0 < 75 / 100
        then body_type (objs s' (out ! n)) = ''blackhole''
           \<and> mass (objs s' (out ! n)) = 4 / 10 * mass (objs (store_of [star_c]) 0)
           \<and> radius (objs s' (out ! n)) = max (5 / 100) (6 / 10 * radius (objs (store_of [star_c]) 0))
        else body_type (objs s' (out ! n)) = ''star''
           \<and> mass (objs s' (out ! n)) = 2 / 10 * mass (objs (store_of [star_c]) 0)
           \<and> radius (objs s' (out ! n)) = max (4 / 100) (5 / 10 * radius (objs (store_of [star_c]) 0))"
    by blast
  have n6: "n = 6" using n by (simp add: rnd0_def)
  have f0: "body_type (objs s' (out ! 0)) = ''planet''"
    using fr n6 by simp
  have r6: "body_type (objs s' (out ! 6)) = ''blackhole'' \<and> mass (objs s' (out ! 6)) = 10"
    using r by (simp add: n6 rnd0_def objs_store_of star_c_def)
  have p6: "position (objs s' (out ! 6)) = (100, 0)"
    using p by (simp add: n6 objs_store_of star_c_def)
  show ?thesis
    using rng_in_range_rnd0 h1 h2 run b l f0 r6 p6 by (simp add: n6)
qed

subsection \<open>handle_collisions\<close>

lemma first_overlap_Some:
  "first_overlap s b cs = Some k \<Longrightarrow>
     k < length cs \<and> overlap s b (cs ! k) \<and> (\<forall>k'<k. \<not> overlap s b (cs ! k'))"
proof (induction cs arbitrary: k)
  case Nil
  then show ?case by simp
next
  case (Cons c cs)
  show ?case
  proof (cases "overlap s b c")
    case True
    with Cons.prems show ?thesis by simp
  next
    case False
    with Cons.prems obtain k0 where k0: "first_overlap s b cs = Some k0" "k = Suc k0"
      by auto
    from Cons.IH [OF k0(1)] False k0(2) show ?thesis
      by (auto simp: nth_Cons split: nat.splits)
  qed
qed

lemma first_overlap_None:
  "first_overlap s b cs = None \<Longrightarrow> \<forall>c \<in> set cs. \<not> overlap s b c"
  by (induction cs) (auto split: if_splits)

lemma hc_inner_scan:
  "hc_inner bodies i js st =
     (case first_overlap (heap st) (bodies ! i)
             (map ((!) bodies) (filter (\<lambda>j. j \<notin> merged_flags st) js)) of
        None \<Rightarrow> (False, st)
      | Some k \<Rightarrow>
          (True, merge_update bodies i (filter (\<lambda>j. j \<notin> merged_flags st) js ! k) st))"
proof (induction js)
  case Nil
  show ?case by simp
next
  case (Cons j js)
  show ?case
  proof (cases "j \<in> merged_flags st")
    case True
    then show ?thesis using Cons.IH by (simp split: option.splits)
  next
    case nf: False
    show ?thesis
    proof (cases "overlap (heap st) (bodies ! i) (bodies ! j)")
      case True
      then show ?thesis using nf by (simp add: Let_def merge_update_def split: prod.splits)
    next
      case False
      then show ?thesis using nf Cons.IH
        by (simp add: Let_def split: option.splits)
    qed
  qed
qed


lemma filter_ne_nth:
  "distinct xs \<Longrightarrow> k < length xs \<Longrightarrow> filter (\<lambda>x. x \<noteq> xs ! k) xs = take k xs @ drop (Suc k) xs"
proof (induction xs arbitrary: k)
  case Nil
  then show ?case by simp
next
  case (Cons x xs)
  show ?case
  proof (cases k)
    case 0
    have "filter (\<lambda>y. y \<noteq> x) xs = xs"
      using Cons.prems(1) by (auto simp: filter_id_conv)
    then show ?thesis using 0 by simp
  next
    case (Suc k')
    then have k': "k' < length xs" using Cons.prems(2) by simp
    then have "xs ! k' \<in> set xs" by simp
    then have "x \<noteq> xs ! k'" using Cons.prems(1) by auto
    moreover have "filter (\<lambda>y. y \<noteq> xs ! k') xs = take k' xs @ drop (Suc k') xs"
      using Cons.IH [of k'] Cons.prems(1) k' by simp
    ultimately show ?thesis using Suc by simp
  qed
qed

lemma remaining_done: "length bodies \<le> i \<Longrightarrow> remaining bodies F i = []"
  by (simp add: remaining_def)

lemma remaining_skip:
  "i < length bodies \<Longrightarrow> i \<in> F \<Longrightarrow> remaining bodies F i = remaining bodies F (Suc i)"
  by (simp add: remaining_def upt_conv_Cons)

lemma remaining_keep:
  "i < length bodies \<Longrightarrow> i \<notin> F \<Longrightarrow>
     remaining bodies F i = bodies ! i # remaining bodies F (Suc i)"
  by (simp add: remaining_def upt_conv_Cons)

lemma remaining_after_merge:
  assumes "k < length (filter (\<lambda>k. k \<notin> F) [Suc i..<length bodies])"
  shows "remaining bodies (F \<union> {i, filter (\<lambda>k. k \<notin> F) [Suc i..<length bodies] ! k}) (Suc i) =
           take k (remaining bodies F (Suc i)) @ drop (Suc k) (remaining bodies F (Suc i))"
proof -
  let ?cand = "filter (\<lambda>k. k \<notin> F) [Suc i..<length bodies]"
  have d: "distinct ?cand" by simp
  have "filter (\<lambda>x. x \<notin> F \<union> {i, ?cand ! k}) [Suc i..<length bodies]
        = filter (\<lambda>x. x \<noteq> ?cand ! k) ?cand"
    by (auto intro: filter_cong)
  also have "\<dots> = take k ?cand @ drop (Suc k) ?cand"
    using d assms by (rule filter_ne_nth)
  finally show ?thesis
    by (simp add: remaining_def take_map drop_map)
qed


lemma hc_outer_resolve:
  "hc_result (hc_outer bodies [i..<length bodies] st) =
     prepend st (resolve_pass (heap st) (remaining bodies (merged_flags st) i))"
proof (induction "length bodies - i" arbitrary: i st)
  case 0
  then have "length bodies \<le> i" by simp
  then show ?case
    by (simp add: remaining_done hc_result_def prepend_def)
next
  case (Suc d)
  then have i: "i < length bodies" and d: "d = length bodies - Suc i" by simp_all
  have upt: "[i..<length bodies] = i # [Suc i..<length bodies]"
    using i by (simp add: upt_conv_Cons)
  note IH = Suc.hyps(1) [OF d]
  let ?F = "merged_flags st"
  show ?case
  proof (cases "i \<in> ?F")
    case True
    have "hc_outer bodies [i..<length bodies] st = hc_outer bodies [Suc i..<length bodies] st"
      using True by (simp add: upt)
    then show ?thesis
      using IH [of st] by (simp add: remaining_skip [OF i True])
  next
    case nf: False
    let ?cand = "filter (\<lambda>k. k \<notin> ?F) [Suc i..<length bodies]"
    let ?L = "remaining bodies ?F (Suc i)"
    have L: "?L = map ((!) bodies) ?cand" by (simp add: remaining_def)
    have keep: "remaining bodies ?F i = bodies ! i # ?L"
      using i nf by (rule remaining_keep)
    show ?thesis
    proof (cases "first_overlap (heap st) (bodies ! i) ?L")
      case None
      have inner: "hc_inner bodies i [Suc i..<length bodies] st = (False, st)"
        using None by (simp add: hc_inner_scan L)
      let ?st2 = "st\<lparr>new_bodies := new_bodies st @ [bodies ! i]\<rparr>"
      have "hc_outer bodies [i..<length bodies] st = hc_outer bodies [Suc i..<length bodies] ?st2"
        using nf inner by (simp add: upt)
      then have "hc_result (hc_outer bodies [i..<length bodies] st) =
                 prepend ?st2 (resolve_pass (heap st) ?L)"
        using IH [of ?st2] by simp
      also have "\<dots> = prepend st (resolve_pass (heap st) (bodies ! i # ?L))"
        using None by (simp add: prepend_def split: prod.splits)
      finally show ?thesis by (simp only: keep)
    next
      case (Some k)
      have k: "k < length ?cand"
        using first_overlap_Some [OF Some] by (simp add: L)
      let ?j = "?cand ! k"
      have Lk: "?L ! k = bodies ! ?j"
        using k by (simp add: L)
      let ?st1 = "merge_update bodies i ?j st"
      have inner: "hc_inner bodies i [Suc i..<length bodies] st = (True, ?st1)"
        using Some by (simp add: hc_inner_scan L)
      have "hc_outer bodies [i..<length bodies] st = hc_outer bodies [Suc i..<length bodies] ?st1"
        using nf inner by (simp add: upt)
      then have a: "hc_result (hc_outer bodies [i..<length bodies] st) =
                 prepend ?st1 (resolve_pass (heap ?st1) (remaining bodies (merged_flags ?st1) (Suc i)))"
        using IH [of ?st1] by simp
      obtain m fc s1 where col: "collide (heap st) (bodies ! i) (bodies ! ?j) = ((m, fc), s1)"
        by (metis prod.exhaust)
      have st1: "merged_flags ?st1 = ?F \<union> {i, ?j}" "heap ?st1 = s1"
        "new_bodies ?st1 = new_bodies st @ [m]" "flashes ?st1 = flashes st @ [(m, fc)]"
        by (simp_all add: merge_update_def col)
      have rem: "remaining bodies (merged_flags ?st1) (Suc i) = take k ?L @ drop (Suc k) ?L"
        unfolding st1(1) using k by (rule remaining_after_merge)
      have b: "prepend ?st1 (resolve_pass (heap ?st1) (remaining bodies (merged_flags ?st1) (Suc i)))
            = prepend st (resolve_pass (heap st) (bodies ! i # ?L))"
        unfolding rem st1(2)
        using Some by (simp add: prepend_def st1 Lk col split: prod.splits)
      show ?thesis
        using a b by (simp only: keep)
    qed
  qed
qed


lemma remaining_all: "remaining bodies {} 0 = bodies"
  by (simp add: remaining_def map_nth)

lemma handle_collisions_resolve_pass:
  "handle_collisions s bodies = resolve_pass s bodies"
proof (cases "length bodies \<le> 1")
  case True
  then consider "bodies = []" | b where "bodies = [b]"
    by (cases bodies) auto
  then show ?thesis
    by cases (simp_all add: handle_collisions_def)
next
  case False
  let ?st0 = "\<lparr>merged_flags = {}, new_bodies = [], flashes = [], heap = s\<rparr>"
  have "handle_collisions s bodies = hc_result (hc_outer bodies [0..<length bodies] ?st0)"
    using False by (simp add: handle_collisions_def hc_result_def Let_def)
  also have "\<dots> = prepend ?st0 (resolve_pass (heap ?st0) (remaining bodies (merged_flags ?st0) 0))"
    by (rule hc_outer_resolve)
  also have "\<dots> = resolve_pass s bodies"
    by (simp add: prepend_def remaining_all)
  finally show ?thesis .
qed


lemma collide_facts:
  assumes "collide s bi bj = ((m, fc), s1)"
  shows "m = nxt s" and "nxt s1 = Suc (nxt s)"
    and "\<And>r. r \<noteq> nxt s \<Longrightarrow> objs s1 r = objs s r"
    and "objs s1 m = collided_body s bi bj"
    and "bi \<noteq> nxt s \<Longrightarrow> bj \<noteq> nxt s \<Longrightarrow> fc = heavier_color (objs s bi) (objs s bj)"
proof -
  have m: "m = fst (fst (collide s bi bj))" and s1: "s1 = snd (collide s bi bj)"
    and fc: "fc = snd (fst (collide s bi bj))"
    using assms by simp_all
  show "m = nxt s"
    unfolding m by (simp add: collide_def merge_bodies_def new_Body_def Let_def split: prod.splits)
  show "nxt s1 = Suc (nxt s)"
    unfolding s1 by (simp add: collide_def merge_bodies_def new_Body_def Let_def split: prod.splits)
  show o: "objs s1 r = objs s r" if "r \<noteq> nxt s" for r
    unfolding s1 using that
    by (simp add: collide_def merge_bodies_def new_Body_def Let_def split: prod.splits)
  show "objs s1 m = collided_body s bi bj"
    unfolding m s1 by (simp add: collided_body_def)
  show "fc = heavier_color (objs s bi) (objs s bj)" if "bi \<noteq> nxt s" "bj \<noteq> nxt s"
  proof -
    have "fc = heavier_color (objs s1 bi) (objs s1 bj)"
      unfolding fc s1
      by (simp add: collide_def heavier_color_def Let_def split: prod.splits)
    then show ?thesis using that by (simp add: o)
  qed
qed

lemma resolve_pass_store:
  "resolve_pass s bs = ((out, fl), s') \<Longrightarrow>
     nxt s \<le> nxt s' \<and> (\<forall>r<nxt s. objs s' r = objs s r)"
proof (induction s bs arbitrary: out fl s' rule: resolve_pass.induct)
  case (1 s)
  then show ?case by simp
next
  case (2 s b rest)
  show ?case
  proof (cases "first_overlap s b rest")
    case None
    obtain out0 fl0 s0 where r: "resolve_pass s rest = ((out0, fl0), s0)"
      by (metis prod.exhaust)
    have "s' = s0" using "2.prems" None r by simp
    with "2.IH"(1) [OF None r] show ?thesis by simp
  next
    case (Some k)
    obtain m fc s1 where col: "collide s b (rest ! k) = ((m, fc), s1)"
      by (metis prod.exhaust)
    obtain out0 fl0 s0 where r: "resolve_pass s1 (take k rest @ drop (Suc k) rest) = ((out0, fl0), s0)"
      by (metis prod.exhaust)
    have e: "s' = s0" using "2.prems" Some col r by simp
    have ih: "nxt s1 \<le> nxt s0 \<and> (\<forall>r<nxt s1. objs s0 r = objs s1 r)"
      using "2.IH"(2) [OF Some col [symmetric] refl refl r] .
    note cf = collide_facts [OF col]
    show ?thesis
      using ih cf(2) cf(3) by (simp add: e)
  qed
qed


lemma in_order_set: "in_order xs a b \<Longrightarrow> a \<in> set xs \<and> b \<in> set xs"
  unfolding in_order_def by (metis nth_mem order_less_trans)

lemma in_order_Cons: "in_order xs a b \<Longrightarrow> in_order (x # xs) a b"
proof -
  assume "in_order xs a b"
  then obtain i j where "i < j" "j < length xs" "xs ! i = a" "xs ! j = b"
    unfolding in_order_def by blast
  then have "Suc i < Suc j \<and> Suc j < length (x # xs) \<and> (x # xs) ! Suc i = a \<and> (x # xs) ! Suc j = b"
    by simp
  then show ?thesis unfolding in_order_def by blast
qed

lemma in_order_head: "k < length xs \<Longrightarrow> in_order (x # xs) x (xs ! k)"
proof -
  assume "k < length xs"
  then have "0 < Suc k \<and> Suc k < length (x # xs) \<and> (x # xs) ! 0 = x \<and> (x # xs) ! Suc k = xs ! k"
    by simp
  then show ?thesis unfolding in_order_def by blast
qed

lemma nth_remove_at:
  "i < length (take k xs @ drop (Suc k) xs) \<Longrightarrow>
   (take k xs @ drop (Suc k) xs) ! i = xs ! (if i < k then i else Suc i)"
  by (auto simp: nth_append min_def)

lemma in_order_remove:
  assumes "in_order (take k xs @ drop (Suc k) xs) a b"
  shows "in_order xs a b"
proof -
  let ?ys = "take k xs @ drop (Suc k) xs"
  let ?f = "\<lambda>i. if i < k then i else Suc i"
  from assms obtain i j where ij: "i < j" "j < length ?ys" "?ys ! i = a" "?ys ! j = b"
    unfolding in_order_def by blast
  have i: "i < length ?ys" using ij by simp
  have len: "?f j < length xs"
    using ij(2) by (auto simp: min_def split: if_splits)
  have "?f i < ?f j" using ij(1) by auto
  moreover have "xs ! ?f i = a" using nth_remove_at [OF i] ij(3) by simp
  moreover have "xs ! ?f j = b" using nth_remove_at [OF ij(2)] ij(4) by simp
  ultimately show ?thesis
    unfolding in_order_def using len by blast
qed

lemma same_objs_same_collision:
  assumes "objs s1 a = objs s a" and "objs s1 b = objs s b"
  shows "overlap s1 a b = overlap s a b" and "collided_body s1 a b = collided_body s a b"
  using assms by (simp_all add: overlap_def collided_body_attributes)


lemma is_merge_Cons: "is_merge s bs s' m a b \<Longrightarrow> is_merge s (x # bs) s' m a b"
  by (simp add: is_merge_def in_order_Cons)

lemma is_merge_lift:
  assumes im: "is_merge s1 (take k rest @ drop (Suc k) rest) s' m a b"
    and wf: "\<forall>r \<in> set rest. r < nxt s"
    and same: "\<And>r. r < nxt s \<Longrightarrow> objs s1 r = objs s r"
    and nx: "nxt s \<le> nxt s1"
  shows "is_merge s (x # rest) s' m a b"
proof -
  from im have io: "in_order (take k rest @ drop (Suc k) rest) a b"
    and ov: "overlap s1 a b" and m: "nxt s1 \<le> m" and ob: "objs s' m = collided_body s1 a b"
    by (simp_all add: is_merge_def)
  from io have io': "in_order rest a b" by (rule in_order_remove)
  then have "a \<in> set rest" "b \<in> set rest" using in_order_set by blast+
  then have "a < nxt s" "b < nxt s" using wf by blast+
  then have e: "objs s1 a = objs s a" "objs s1 b = objs s b" by (simp_all add: same)
  have "overlap s a b" using ov same_objs_same_collision(1) [OF e] by simp
  moreover have "objs s' m = collided_body s a b"
    using ob same_objs_same_collision(2) [OF e] by simp
  moreover have "nxt s \<le> m" using m nx by simp
  ultimately show ?thesis
    using io' by (simp add: is_merge_def in_order_Cons)
qed

lemma resolve_pass_char:
  "resolve_pass s bs = ((out, fl), s') \<Longrightarrow> \<forall>r \<in> set bs. r < nxt s \<Longrightarrow>
     (\<forall>x \<in> set out. x \<in> set bs \<or> (\<exists>a b. is_merge s bs s' x a b)) \<and>
     (\<forall>mf \<in> set fl. fst mf \<in> set out \<and>
        (\<exists>a b. is_merge s bs s' (fst mf) a b \<and> snd mf = heavier_color (objs s a) (objs s b)))"
proof (induction s bs arbitrary: out fl s' rule: resolve_pass.induct)
  case (1 s)
  then show ?case by simp
next
  case (2 s b rest)
  have wf_rest: "\<forall>r \<in> set rest. r < nxt s" using "2.prems"(2) by simp
  have wf_b: "b < nxt s" using "2.prems"(2) by simp
  show ?case
  proof (cases "first_overlap s b rest")
    case None
    obtain out0 fl0 s0 where r: "resolve_pass s rest = ((out0, fl0), s0)"
      by (metis prod.exhaust)
    have e: "out = b # out0" "fl = fl0" "s' = s0"
      using "2.prems"(1) None r by simp_all
    note ih = "2.IH"(1) [OF None r wf_rest]
    have A: "\<forall>x \<in> set out. x \<in> set (b # rest) \<or> (\<exists>a c. is_merge s (b # rest) s' x a c)"
      unfolding e using ih is_merge_Cons by fastforce
    have B: "\<forall>mf \<in> set fl. fst mf \<in> set out \<and>
        (\<exists>a c. is_merge s (b # rest) s' (fst mf) a c \<and> snd mf = heavier_color (objs s a) (objs s c))"
      unfolding e using ih is_merge_Cons by fastforce
    from A B show ?thesis by blast
  next
    case (Some k)
    let ?rest' = "take k rest @ drop (Suc k) rest"
    obtain m fc s1 where col: "collide s b (rest ! k) = ((m, fc), s1)"
      by (metis prod.exhaust)
    obtain out0 fl0 s0 where r: "resolve_pass s1 ?rest' = ((out0, fl0), s0)"
      by (metis prod.exhaust)
    have e: "out = m # out0" "fl = (m, fc) # fl0" "s' = s0"
      using "2.prems"(1) Some col r by simp_all
    note cf = collide_facts [OF col]
    note fo = first_overlap_Some [OF Some]
    have k: "k < length rest" using fo by simp
    have wf_k: "rest ! k < nxt s" using wf_rest k by simp
    have sub: "set ?rest' \<subseteq> set rest"
      by (auto dest: in_set_takeD in_set_dropD)
    have wf1: "\<forall>r \<in> set ?rest'. r < nxt s1"
      using sub wf_rest cf(2) by fastforce
    have same: "objs s1 r = objs s r" if "r < nxt s" for r
      using that cf(3) by simp
    have nx: "nxt s \<le> nxt s1" using cf(2) by simp
    note ih = "2.IH"(2) [OF Some col [symmetric] refl refl r wf1]
    note st = resolve_pass_store [OF r]
    have head: "is_merge s (b # rest) s' m b (rest ! k)"
    proof -
      have "objs s0 m = objs s1 m" using st cf(1) cf(2) by simp
      then have "objs s' m = collided_body s b (rest ! k)" using cf(4) e(3) by simp
      then show ?thesis
        using fo cf(1) by (simp add: is_merge_def in_order_head)
    qed
    have fcv: "fc = heavier_color (objs s b) (objs s (rest ! k))"
      using cf(5) wf_b wf_k by simp
    have lift: "is_merge s (b # rest) s' x a c" if "is_merge s1 ?rest' s0 x a c" for x a c
      using that wf_rest same nx unfolding e(3) by (rule is_merge_lift)
    have A: "\<forall>x \<in> set out. x \<in> set (b # rest) \<or> (\<exists>a c. is_merge s (b # rest) s' x a c)"
    proof
      fix x assume "x \<in> set out"
      then consider "x = m" | "x \<in> set out0" using e(1) by auto
      then show "x \<in> set (b # rest) \<or> (\<exists>a c. is_merge s (b # rest) s' x a c)"
      proof cases
        case 1
        then show ?thesis using head by blast
      next
        case 2
        with ih have "x \<in> set ?rest' \<or> (\<exists>a c. is_merge s1 ?rest' s0 x a c)" by blast
        then show ?thesis
        proof
          assume "x \<in> set ?rest'"
          then have "x \<in> set rest" using sub by blast
          then show ?thesis by simp
        next
          assume "\<exists>a c. is_merge s1 ?rest' s0 x a c"
          then obtain a c where "is_merge s1 ?rest' s0 x a c" by blast
          then have "is_merge s (b # rest) s' x a c" by (rule lift)
          then show ?thesis by blast
        qed
      qed
    qed
    have B: "\<forall>mf \<in> set fl. fst mf \<in> set out \<and>
        (\<exists>a c. is_merge s (b # rest) s' (fst mf) a c \<and> snd mf = heavier_color (objs s a) (objs s c))"
    proof
      fix mf assume "mf \<in> set fl"
      then consider "mf = (m, fc)" | "mf \<in> set fl0" using e(2) by auto
      then show "fst mf \<in> set out \<and>
        (\<exists>a c. is_merge s (b # rest) s' (fst mf) a c \<and> snd mf = heavier_color (objs s a) (objs s c))"
      proof cases
        case 1
        then show ?thesis using head fcv e(1) by auto
      next
        case 2
        with ih obtain a c where m0: "fst mf \<in> set out0" and im: "is_merge s1 ?rest' s0 (fst mf) a c"
          and hc: "snd mf = heavier_color (objs s1 a) (objs s1 c)" by blast
        from im have "in_order ?rest' a c" by (simp add: is_merge_def)
        then have "a \<in> set ?rest'" "c \<in> set ?rest'" using in_order_set by blast+
        then have "a < nxt s" "c < nxt s" using sub wf_rest by blast+
        then have "snd mf = heavier_color (objs s a) (objs s c)" using hc by (simp add: same)
        then show ?thesis using m0 lift [OF im] e(1) by auto
      qed
    qed
    from A B show ?thesis by blast
  qed
qed


lemma sqrt_25: "sqrt 25 = 5"
proof -
  have "sqrt ((5::real)\<^sup>2) = \<bar>5\<bar>" by (rule real_sqrt_abs)
  then show ?thesis by simp
qed

lemma overlap_planet_hole:
  "objs s a = planet_a \<Longrightarrow> objs s b = hole_b \<Longrightarrow> overlap s a b"
  by (simp add: overlap_def linalg_norm_def vsub_def planet_a_def hole_b_def sqrt_25)

lemma handle_collisions_store:
  "\<forall>r<nxt s. objs (snd (handle_collisions s bodies)) r = objs s r"
proof -
  obtain out fl s' where r: "resolve_pass s bodies = ((out, fl), s')"
    by (metis prod.exhaust)
  from resolve_pass_store [OF r] show ?thesis
    by (simp add: handle_collisions_resolve_pass r)
qed

lemma example_pass:
  "resolve_pass (store_of [planet_a, hole_b, star_c]) [0, 1, 2] =
     (([3, 2], [(3, ''cyan'')]), snd (collide (store_of [planet_a, hole_b, star_c]) 0 1))"
proof -
  let ?S = "store_of [planet_a, hole_b, star_c]"
  have ov: "overlap ?S 0 1"
    by (rule overlap_planet_hole) (simp_all add: objs_store_of)
  obtain m fc s1 where col: "collide ?S 0 1 = ((m, fc), s1)"
    by (metis prod.exhaust)
  note cf = collide_facts [OF col]
  have m: "m = 3" using cf(1) by (simp add: nxt_store_of)
  have fc: "fc = ''cyan''"
    using cf(5) by (simp add: nxt_store_of heavier_color_def objs_store_of planet_a_def hole_b_def)
  have "resolve_pass ?S [0, 1, 2] = (([m, 2], [(m, fc)]), s1)"
    using ov by (simp add: col del: One_nat_def)
  then show ?thesis by (simp add: m fc col del: One_nat_def)
qed

text \<open>
  C4: the nested loops of \<open>handle_collisions\<close>, with their set of merged indices, compute the
  pass the specification describes (\<open>resolve_pass\<close>): the bodies are taken in ascending
  order; a body still present is paired with the first later body still present that
  overlaps it, the two are replaced by one merged body standing where the first one stood,
  and the pass goes on with the next body; a body with no such partner is carried over as
  the same object, in its place.  No object that existed before the pass is changed.
\<close>

theorem handle_collisions_greedy_pass:
  "handle_collisions s bodies = resolve_pass s bodies \<and>
   (\<forall>r<nxt s. objs (snd (handle_collisions s bodies)) r = objs s r)"
  using handle_collisions_resolve_pass handle_collisions_store by blast

theorem handle_collisions_greedy_pass_witness:
  "fst (handle_collisions (store_of [planet_a, hole_b, star_c]) [0, 1, 2]) = ([3, 2], [(3, ''cyan'')]) \<and>
   objs (snd (handle_collisions (store_of [planet_a, hole_b, star_c]) [0, 1, 2])) 2 = star_c"
proof -
  let ?S = "store_of [planet_a, hole_b, star_c]"
  from handle_collisions_greedy_pass [of ?S "[0, 1, 2]"]
  have a: "handle_collisions ?S [0, 1, 2] = resolve_pass ?S [0, 1, 2]"
    and b: "\<forall>r<nxt ?S. objs (snd (handle_collisions ?S [0, 1, 2])) r = objs ?S r"
    by blast+
  have f: "fst (handle_collisions ?S [0, 1, 2]) = ([3, 2], [(3, ''cyan'')])"
    by (simp only: a example_pass fst_conv)
  have "objs (snd (handle_collisions ?S [0, 1, 2])) 2 = objs ?S 2"
    using b by (simp add: nxt_store_of)
  then have "objs (snd (handle_collisions ?S [0, 1, 2])) 2 = star_c"
    by (simp add: objs_store_of)
  with f show ?thesis by blast
qed


lemma example_pass2:
  "resolve_pass (store_of [planet_a, hole_b]) [0, 1] =
     (([2], [(2, ''cyan'')]), snd (collide (store_of [planet_a, hole_b]) 0 1))"
proof -
  let ?S = "store_of [planet_a, hole_b]"
  have ov: "overlap ?S 0 1"
    by (rule overlap_planet_hole) (simp_all add: objs_store_of)
  obtain m fc s1 where col: "collide ?S 0 1 = ((m, fc), s1)"
    by (metis prod.exhaust)
  note cf = collide_facts [OF col]
  have m: "m = 2" using cf(1) by (simp add: nxt_store_of)
  have fc: "fc = ''cyan''"
    using cf(5) by (simp add: nxt_store_of heavier_color_def objs_store_of planet_a_def hole_b_def)
  have "resolve_pass ?S [0, 1] = (([m], [(m, fc)]), s1)"
    using ov by (simp add: col del: One_nat_def)
  then show ?thesis by (simp add: m fc col del: One_nat_def)
qed

lemma example_collided:
  "objs (snd (collide (store_of [planet_a, hole_b]) 0 1)) 2 =
     (merged_attributes planet_a hole_b)\<lparr>body_type := ''blackhole'', color := ''black''\<rparr>"
proof -
  let ?S = "store_of [planet_a, hole_b]"
  obtain m fc s1 where col: "collide ?S 0 1 = ((m, fc), s1)"
    by (metis prod.exhaust)
  note cf = collide_facts [OF col]
  have m: "m = 2" using cf(1) by (simp add: nxt_store_of)
  have "objs s1 2 = collided_body ?S 0 1" using cf(4) m by simp
  also have "\<dots> = (merged_attributes planet_a hole_b)\<lparr>body_type := ''blackhole'', color := ''black''\<rparr>"
    by (simp add: collided_body_attributes objs_store_of hole_b_def)
  finally show ?thesis by (simp add: col del: One_nat_def)
qed

lemma in_order_indices:
  "in_order xs a b \<Longrightarrow> \<exists>i j. i < j \<and> j < length xs \<and> xs ! i = a \<and> xs ! j = b"
  by (simp add: in_order_def)

lemma collided_body_color:
  "color (collided_body s a b) =
     (if body_type (objs s a) = ''blackhole'' \<or> body_type (objs s b) = ''blackhole''
      then ''black'' else heavier_color (objs s a) (objs s b))"
  by (simp add: collided_body_attributes merged_attributes_def heavier_color_def Let_def)

lemma merged_body_color:
  "color (merged_body s a b) = heavier_color (objs s a) (objs s b)"
  by (simp add: merged_body_attributes merged_attributes_def heavier_color_def Let_def)

text \<open>
  C6 as stated fails: a planet of mass 2 and colour cyan merges with a black hole of mass 1;
  the flash reports cyan, but the merged body's colour is black, not the heavier body's.
\<close>

theorem blackhole_merge_tag_counterexample:
  "mass (objs (store_of [planet_a, hole_b]) 1) < mass (objs (store_of [planet_a, hole_b]) 0) \<and>
   color (objs (store_of [planet_a, hole_b]) 0) = ''cyan'' \<and>
   body_type (objs (store_of [planet_a, hole_b]) 1) = ''blackhole'' \<and>
   fst (handle_collisions (store_of [planet_a, hole_b]) [0, 1]) = ([2], [(2, ''cyan'')]) \<and>
   color (objs (snd (handle_collisions (store_of [planet_a, hole_b]) [0, 1])) 2) = ''black'' \<and>
   color (objs (snd (handle_collisions (store_of [planet_a, hole_b]) [0, 1])) 2)
     \<noteq> color (objs (store_of [planet_a, hole_b]) 0)"
proof -
  let ?S = "store_of [planet_a, hole_b]"
  have a: "handle_collisions ?S [0, 1] = (([2], [(2, ''cyan'')]), snd (collide ?S 0 1))"
    by (simp only: handle_collisions_resolve_pass example_pass2)
  have c: "color (objs (snd (handle_collisions ?S [0, 1])) 2) = ''black''"
    by (simp only: a snd_conv example_collided) simp
  have d: "mass (objs ?S 1) < mass (objs ?S 0)" "color (objs ?S 0) = ''cyan''"
    "body_type (objs ?S 1) = ''blackhole''"
    by (simp_all add: objs_store_of planet_a_def hole_b_def)
  have f: "fst (handle_collisions ?S [0, 1]) = ([2], [(2, ''cyan'')])"
    by (simp only: a fst_conv)
  have "color (objs (snd (handle_collisions ?S [0, 1])) 2) \<noteq> color (objs ?S 0)"
    by (simp only: c d(2)) simp
  with c d f show ?thesis by blast
qed

text \<open>
  C6 amended: every flash of a pass over existing bodies names a merged body of the
  result and two overlapping bodies of indices \<open>i < j\<close>; its colour is that of the heavier of
  the two, of body \<open>i\<close> on equal masses.  The merged body has that same colour when neither
  body is a black hole; when one is, \<open>handle_collisions\<close> sets its colour to black, while
  \<open>merge_bodies\<close> on its own would give the heavier body's colour.
\<close>

theorem flash_reports_heavier_color:
  assumes wf: "\<forall>r \<in> set bodies. r < nxt s"
  shows "\<forall>mf \<in> set (snd (fst (handle_collisions s bodies))).
     fst mf \<in> set (fst (fst (handle_collisions s bodies))) \<and>
     (\<exists>i j. i < j \<and> j < length bodies \<and> overlap s (bodies ! i) (bodies ! j) \<and>
        snd mf = heavier_color (objs s (bodies ! i)) (objs s (bodies ! j)) \<and>
        color (objs (snd (handle_collisions s bodies)) (fst mf)) =
          (if body_type (objs s (bodies ! i)) = ''blackhole'' \<or>
              body_type (objs s (bodies ! j)) = ''blackhole''
           then ''black''
           else heavier_color (objs s (bodies ! i)) (objs s (bodies ! j))) \<and>
        color (merged_body s (bodies ! i) (bodies ! j)) =
          heavier_color (objs s (bodies ! i)) (objs s (bodies ! j)))"
proof
  fix mf assume mf: "mf \<in> set (snd (fst (handle_collisions s bodies)))"
  obtain out fl s' where r: "resolve_pass s bodies = ((out, fl), s')"
    by (metis prod.exhaust)
  have hc: "handle_collisions s bodies = ((out, fl), s')"
    by (simp add: handle_collisions_resolve_pass r)
  from mf have "mf \<in> set fl" by (simp add: hc)
  with resolve_pass_char [OF r wf] obtain a b where
    o: "fst mf \<in> set out" and im: "is_merge s bodies s' (fst mf) a b"
    and c: "snd mf = heavier_color (objs s a) (objs s b)"
    by blast
  from im have io: "in_order bodies a b" and ov: "overlap s a b"
    and ob: "objs s' (fst mf) = collided_body s a b"
    by (simp_all add: is_merge_def)
  from in_order_indices [OF io] obtain i j where
    ij: "i < j" "j < length bodies" "bodies ! i = a" "bodies ! j = b" by blast
  have "color (objs s' (fst mf)) =
          (if body_type (objs s a) = ''blackhole'' \<or> body_type (objs s b) = ''blackhole''
           then ''black'' else heavier_color (objs s a) (objs s b))"
    by (simp only: ob collided_body_color)
  with o ov c ij merged_body_color [of s a b]
  show "fst mf \<in> set (fst (fst (handle_collisions s bodies))) \<and>
     (\<exists>i j. i < j \<and> j < length bodies \<and> overlap s (bodies ! i) (bodies ! j) \<and>
        snd mf = heavier_color (objs s (bodies ! i)) (objs s (bodies ! j)) \<and>
        color (objs (snd (handle_collisions s bodies)) (fst mf)) =
          (if body_type (objs s (bodies ! i)) = ''blackhole'' \<or>
              body_type (objs s (bodies ! j)) = ''blackhole''
           then ''black''
           else heavier_color (objs s (bodies ! i)) (objs s (bodies ! j))) \<and>
        color (merged_body s (bodies ! i) (bodies ! j)) =
          heavier_color (objs s (bodies ! i)) (objs s (bodies ! j)))"
    unfolding hc fst_conv snd_conv by blast
qed


theorem flash_reports_heavier_color_witness:
  "0 < nxt (store_of [planet_a, hole_b]) \<and> 1 < nxt (store_of [planet_a, hole_b]) \<and>
   (2, ''cyan'') \<in> set (snd (fst (handle_collisions (store_of [planet_a, hole_b]) [0, 1]))) \<and>
   2 \<in> set (fst (fst (handle_collisions (store_of [planet_a, hole_b]) [0, 1]))) \<and>
   color (objs (snd (handle_collisions (store_of [planet_a, hole_b]) [0, 1])) 2) = ''black''"
proof -
  let ?S = "store_of [planet_a, hole_b]"
  have wf: "\<forall>r \<in> set [0, 1]. r < nxt ?S"
    by (simp add: nxt_store_of)
  have a: "handle_collisions ?S [0, 1] = (([2], [(2, ''cyan'')]), snd (collide ?S 0 1))"
    by (simp only: handle_collisions_resolve_pass example_pass2)
  have mem: "(2, ''cyan'') \<in> set (snd (fst (handle_collisions ?S [0, 1])))"
    by (simp only: a fst_conv snd_conv) simp
  from flash_reports_heavier_color [OF wf] mem
  obtain i j where o: "fst (2::nat, ''cyan'') \<in> set (fst (fst (handle_collisions ?S [0, 1])))"
    and ij: "i < j" "j < length [0::nat, 1]"
    and c: "color (objs (snd (handle_collisions ?S [0, 1])) (fst (2::nat, ''cyan''))) =
          (if body_type (objs ?S ([0, 1] ! i)) = ''blackhole'' \<or>
              body_type (objs ?S ([0, 1] ! j)) = ''blackhole''
           then ''black''
           else heavier_color (objs ?S ([0, 1] ! i)) (objs ?S ([0, 1] ! j)))"
    by blast
  have j: "j = 1" using ij by simp
  have "color (objs (snd (handle_collisions ?S [0, 1])) 2) = ''black''"
    using c by (simp add: j objs_store_of hole_b_def)
  with o mem show ?thesis by (simp add: nxt_store_of)
qed

subsection \<open>Positive mass and radius are kept\<close>

lemma velocity_verlet_step_fields:
  "\<exists>s'. velocity_verlet_step s bodies dt = Inr s' \<and>
        (\<forall>r. mass (objs s' r) = mass (objs s r) \<and> radius (objs s' r) = radius (objs s r) \<and>
             body_type (objs s' r) = body_type (objs s r))"
proof (cases "bodies = []")
  case True
  then show ?thesis by (simp add: velocity_verlet_step_def)
next
  case False
  from velocity_verlet_step_unfold [OF False, of s dt]
  obtain zs where "velocity_verlet_step s bodies dt = Inr (fold assign_pos_vel zs s)"
    by blast
  then show ?thesis
    using fold_assign_fields by auto
qed

lemma collided_body_positive:
  assumes "0 < mass (objs s a)" "0 < mass (objs s b)" "0 < radius (objs s a)"
  shows "0 < mass (collided_body s a b) \<and> 0 < radius (collided_body s a b)"
proof -
  have "0 < (radius (objs s a))\<^sup>2" using assms(3) by simp
  moreover have "0 \<le> (radius (objs s b))\<^sup>2" by simp
  ultimately have "0 < (radius (objs s a))\<^sup>2 + (radius (objs s b))\<^sup>2"
    by linarith
  then have "0 < ((radius (objs s a))\<^sup>2 + (radius (objs s b))\<^sup>2) powr (5 / 10)"
    using assms(3) by simp
  then show ?thesis
    using assms(1,2) by (simp add: collided_body_attributes merged_attributes_def Let_def)
qed

lemma handle_collisions_positive:
  assumes inv: "\<forall>r \<in> set bodies. 0 < mass (objs s r) \<and> 0 < radius (objs s r)"
    and wf: "\<forall>r \<in> set bodies. r < nxt s"
  shows "\<forall>r \<in> set (fst (fst (handle_collisions s bodies))).
           0 < mass (objs (snd (handle_collisions s bodies)) r) \<and>
           0 < radius (objs (snd (handle_collisions s bodies)) r)"
proof
  fix x assume x: "x \<in> set (fst (fst (handle_collisions s bodies)))"
  obtain out fl s' where r: "resolve_pass s bodies = ((out, fl), s')"
    by (metis prod.exhaust)
  have hc: "handle_collisions s bodies = ((out, fl), s')"
    by (simp add: handle_collisions_resolve_pass r)
  from x have "x \<in> set out" by (simp add: hc)
  with resolve_pass_char [OF r wf]
  have "x \<in> set bodies \<or> (\<exists>a b. is_merge s bodies s' x a b)" by blast
  then have "0 < mass (objs s' x) \<and> 0 < radius (objs s' x)"
  proof
    assume xb: "x \<in> set bodies"
    then have "x < nxt s" using wf by blast
    then have "objs s' x = objs s x" using resolve_pass_store [OF r] by blast
    then show ?thesis using inv xb by simp
  next
    assume "\<exists>a b. is_merge s bodies s' x a b"
    then obtain a b where im: "is_merge s bodies s' x a b" by blast
    then have io: "in_order bodies a b" and ob: "objs s' x = collided_body s a b"
      by (simp_all add: is_merge_def)
    from in_order_set [OF io] inv
    have "0 < mass (objs s a)" "0 < mass (objs s b)" "0 < radius (objs s a)" by blast+
    then show ?thesis
      unfolding ob by (rule collided_body_positive)
  qed
  then show "0 < mass (objs (snd (handle_collisions s bodies)) x) \<and>
           0 < radius (objs (snd (handle_collisions s bodies)) x)"
    by (simp add: hc)
qed


lemma fragment_positive:
  assumes "rng_in_range rnd" and "k < nat (randint_6_12 rnd)"
  shows "0 < mass (fragment_attributes rnd pos vel k) \<and> 0 < radius (fragment_attributes rnd pos vel k)"
proof -
  from rng_in_range_frag [OF assms] have "5 / 100 \<le> fd_mass (frag_draws rnd k)"
    by (simp add: in_half_open_def)
  then have "0 < mass (fragment_attributes rnd pos vel k)"
    by (simp add: fragment_attributes_def)
  moreover have "0 < radius (fragment_attributes rnd pos vel k)"
    by (simp add: fragment_attributes_def less_max_iff_disj)
  ultimately show ?thesis by simp
qed

lemma remnant_positive:
  assumes "0 < mass t"
  shows "0 < mass (remnant_attributes rnd t) \<and> 0 < radius (remnant_attributes rnd t)"
  using assms by (simp add: remnant_attributes_def max_def)

lemma trigger_supernova_positive:
  assumes inv: "\<forall>r \<in> set bodies. 0 < mass (objs s r) \<and> 0 < radius (objs s r)"
    and wf: "\<forall>r \<in> set bodies. r < nxt s"
    and rng: "rng_in_range rnd" and old: "target < nxt s"
  shows "\<forall>r \<in> set (fst (snd (trigger_supernova rnd s bodies target)))
              \<union> set (fst (trigger_supernova rnd s bodies target)).
           0 < mass (objs (snd (snd (trigger_supernova rnd s bodies target))) r) \<and>
           0 < radius (objs (snd (snd (trigger_supernova rnd s bodies target))) r)"
proof (cases "mass (objs s target) < MASS_THRESHOLD")
  case True
  then show ?thesis
    using inv by (simp add: trigger_supernova_below)
next
  case False
  define n where "n = nat (randint_6_12 rnd)"
  define pos where "pos = position (objs s target)"
  define vel where "vel = velocity (objs s target)"
  define s1 where "s1 = snd (sn_fragments rnd pos vel [0..<n] [] s)"
  define s' where "s' = snd (new_Body s1 (remnant_attributes rnd (objs s target)))"
  define out where "out = map (\<lambda>i. nxt s + i) [0..<n] @ [nxt s + n]"
  have run: "trigger_supernova rnd s bodies target = (out, remove1 target bodies, s')"
    unfolding out_def s'_def s1_def pos_def vel_def n_def
    using False old by (rule trigger_supernova_explodes)
  note fr = sn_fragments_result [of rnd pos vel "[0..<n]" "[]" s, folded s1_def]
  have n1: "nxt s1 = nxt s + n" using fr by simp
  have below1: "objs s1 r = objs s r" if "r < nxt s" for r using fr that by simp
  have frag1: "objs s1 (nxt s + k) = fragment_attributes rnd pos vel k" if "k < n" for k
    using fr that by simp
  have s'_obj: "objs s' r = (if r = nxt s + n then remnant_attributes rnd (objs s target) else objs s1 r)" for r
    by (simp add: s'_def new_Body_simps n1)
  have tm: "0 < mass (objs s target)"
    using False by (simp add: MASS_THRESHOLD_def)
  have kept: "0 < mass (objs s' r) \<and> 0 < radius (objs s' r)" if "r \<in> set (remove1 target bodies)" for r
  proof -
    have rb: "r \<in> set bodies" using that set_remove1_subset [of target bodies] by blast
    then have "r < nxt s" using wf by blast
    then have "objs s' r = objs s r" by (simp add: s'_obj below1)
    then show ?thesis using inv rb by simp
  qed
  have new: "0 < mass (objs s' r) \<and> 0 < radius (objs s' r)" if "r \<in> set out" for r
  proof -
    from that have "(nxt s \<le> r \<and> r < nxt s + n) \<or> r = nxt s + n"
      by (auto simp: out_def)
    moreover have "\<exists>k. k < n \<and> r = nxt s + k" if "nxt s \<le> r \<and> r < nxt s + n"
      using that by (intro exI [of _ "r - nxt s"]) auto
    ultimately consider k where "k < n" "r = nxt s + k" | "r = nxt s + n"
      by blast
    then show ?thesis
    proof cases
      case 1
      then have "objs s' r = fragment_attributes rnd pos vel k"
        by (simp add: s'_obj frag1)
      then show ?thesis
        using fragment_positive [OF rng 1(1) [unfolded n_def]] by simp
    next
      case 2
      then have "objs s' r = remnant_attributes rnd (objs s target)"
        by (simp add: s'_obj)
      then show ?thesis
        using remnant_positive [OF tm] by simp
    qed
  qed
  show ?thesis
    unfolding run fst_conv snd_conv using kept new by blast
qed


text \<open>
  C10: when every body of the list has positive mass and positive radius (and is an object
  that exists), then after an integration step every body still has, and no object has had
  its type changed; after a collision pass every body of the resulting list has, merged
  bodies included; and after a supernova trigger on an existing target, with random outcomes
  in the ranges asked of numpy, every body left in the list and every returned fragment and
  remnant has.
\<close>

theorem core_operations_keep_invariants:
  assumes inv: "\<forall>r \<in> set bodies. 0 < mass (objs s r) \<and> 0 < radius (objs s r)"
    and wf: "\<forall>r \<in> set bodies. r < nxt s"
  shows "(\<exists>s'. velocity_verlet_step s bodies dt = Inr s' \<and>
             (\<forall>r \<in> set bodies. 0 < mass (objs s' r) \<and> 0 < radius (objs s' r)) \<and>
             (\<forall>r. body_type (objs s' r) = body_type (objs s r)))
       \<and> (\<forall>r \<in> set (fst (fst (handle_collisions s bodies))).
             0 < mass (objs (snd (handle_collisions s bodies)) r) \<and>
             0 < radius (objs (snd (handle_collisions s bodies)) r))
       \<and> (rng_in_range rnd \<and> target < nxt s \<longrightarrow>
            (\<forall>r \<in> set (fst (snd (trigger_supernova rnd s bodies target)))
                   \<union> set (fst (trigger_supernova rnd s bodies target)).
               0 < mass (objs (snd (snd (trigger_supernova rnd s bodies target))) r) \<and>
               0 < radius (objs (snd (snd (trigger_supernova rnd s bodies target))) r)))"
proof (intro conjI impI)
  from velocity_verlet_step_fields [of s bodies dt]
  obtain s' where run: "velocity_verlet_step s bodies dt = Inr s'"
    and f: "\<forall>r. mass (objs s' r) = mass (objs s r) \<and> radius (objs s' r) = radius (objs s r) \<and>
             body_type (objs s' r) = body_type (objs s r)"
    by blast
  have "\<forall>r \<in> set bodies. 0 < mass (objs s' r) \<and> 0 < radius (objs s' r)"
    using inv f by simp
  with run f
  show "\<exists>s'. velocity_verlet_step s bodies dt = Inr s' \<and>
             (\<forall>r \<in> set bodies. 0 < mass (objs s' r) \<and> 0 < radius (objs s' r)) \<and>
             (\<forall>r. body_type (objs s' r) = body_type (objs s r))"
    by blast
next
  show "\<forall>r \<in> set (fst (fst (handle_collisions s bodies))).
             0 < mass (objs (snd (handle_collisions s bodies)) r) \<and>
             0 < radius (objs (snd (handle_collisions s bodies)) r)"
    using inv wf by (rule handle_collisions_positive)
next
  assume "rng_in_range rnd \<and> target < nxt s"
  then have rng: "rng_in_range rnd" and old: "target < nxt s" by simp_all
  show "\<forall>r \<in> set (fst (snd (trigger_supernova rnd s bodies target)))
                   \<union> set (fst (trigger_supernova rnd s bodies target)).
               0 < mass (objs (snd (snd (trigger_supernova rnd s bodies target))) r) \<and>
               0 < radius (objs (snd (snd (trigger_supernova rnd s bodies target))) r)"
    using inv wf rng old by (rule trigger_supernova_positive)
qed

theorem core_operations_keep_invariants_witness:
  "0 < mass planet_a \<and> 0 < radius planet_a \<and> 0 < mass hole_b \<and> 0 < radius hole_b \<and>
   0 < mass star_c \<and> 0 < radius star_c \<and> rng_in_range rnd0 \<and>
   (\<exists>s'. velocity_verlet_step (store_of [planet_a, hole_b, star_c]) [0, 1, 2] (1 / 100) = Inr s' \<and>
         0 < mass (objs s' 0) \<and> body_type (objs s' 1) = ''blackhole'') \<and>
   0 < mass (objs (snd (handle_collisions (store_of [planet_a, hole_b, star_c]) [0, 1, 2])) 3) \<and>
   0 < radius (objs (snd (handle_collisions (store_of [planet_a, hole_b, star_c]) [0, 1, 2])) 3) \<and>
   0 < mass (objs (snd (snd (trigger_supernova rnd0 (store_of [planet_a, hole_b, star_c]) [0, 1, 2] 2))) 0)"
proof -
  let ?S = "store_of [planet_a, hole_b, star_c]"
  have pos: "0 < mass planet_a \<and> 0 < radius planet_a \<and> 0 < mass hole_b \<and> 0 < radius hole_b \<and>
     0 < mass star_c \<and> 0 < radius star_c"
    by (simp add: planet_a_def hole_b_def star_c_def)
  have inv: "\<forall>r \<in> set [0, 1, 2]. 0 < mass (objs ?S r) \<and> 0 < radius (objs ?S r)"
    using pos by (simp add: objs_store_of)
  have wf: "\<forall>r \<in> set [0, 1, 2]. r < nxt ?S"
    by (simp add: nxt_store_of)
  note t = core_operations_keep_invariants [OF inv wf, of "1 / 100" rnd0 2]
  from t obtain s' where run: "velocity_verlet_step ?S [0, 1, 2] (1 / 100) = Inr s'"
    and p: "\<forall>r \<in> set [0, 1, 2]. 0 < mass (objs s' r) \<and> 0 < radius (objs s' r)"
    and bt: "\<forall>r. body_type (objs s' r) = body_type (objs ?S r)"
    by blast
  have a: "\<exists>s'. velocity_verlet_step ?S [0, 1, 2] (1 / 100) = Inr s' \<and>
         0 < mass (objs s' 0) \<and> body_type (objs s' 1) = ''blackhole''"
    using run p bt by (simp add: objs_store_of hole_b_def)
  have m3: "3 \<in> set (fst (fst (handle_collisions ?S [0, 1, 2])))"
    by (simp only: handle_collisions_resolve_pass example_pass fst_conv) simp
  from t m3 have b: "0 < mass (objs (snd (handle_collisions ?S [0, 1, 2])) 3) \<and>
      0 < radius (objs (snd (handle_collisions ?S [0, 1, 2])) 3)"
    by blast
  have "fst (snd (trigger_supernova rnd0 ?S [0, 1, 2] 2)) = [0, 1]"
    by (simp add: trigger_supernova_bodies MASS_THRESHOLD_def objs_store_of star_c_def)
  then have m0: "0 \<in> set (fst (snd (trigger_supernova rnd0 ?S [0, 1, 2] 2)))
       \<union> set (fst (trigger_supernova rnd0 ?S [0, 1, 2] 2))"
    by simp
  have old: "rng_in_range rnd0 \<and> 2 < nxt ?S"
    by (simp add: rng_in_range_rnd0 nxt_store_of)
  from t old m0 have c: "0 < mass (objs (snd (snd (trigger_supernova rnd0 ?S [0, 1, 2] 2))) 0)"
    by blast
  from pos a b c rng_in_range_rnd0 show ?thesis by blast
qed

end
